theory Spec2Isabelle
  imports Main
begin

section \<open>Python strings\<close>

text \<open>
  A Python \<^verbatim>\<open>str\<close> is a sequence of Unicode code points, and \<^verbatim>\<open>len\<close> counts code
  points. The model takes a string as the list of its code points. ASCII literals of the
  source are written \<open>str ''...''\<close>.
\<close>

type_synonym ustr = "nat list"

definition str :: "string \<Rightarrow> ustr" where
  "str s = map of_char s"

text \<open>
  \<^verbatim>\<open>str.strip()\<close> without argument removes leading and trailing white space, which for a
  \<^verbatim>\<open>str\<close> is every code point with \<^verbatim>\<open>str.isspace()\<close>.
\<close>

definition py_isspace :: "nat \<Rightarrow> bool" where
  "py_isspace c \<longleftrightarrow>
     (0x09 \<le> c \<and> c \<le> 0x0D) \<or> (0x1C \<le> c \<and> c \<le> 0x20) \<or> c = 0x85 \<or> c = 0xA0 \<or>
     c = 0x1680 \<or> (0x2000 \<le> c \<and> c \<le> 0x200A) \<or> c = 0x2028 \<or> c = 0x2029 \<or>
     c = 0x202F \<or> c = 0x205F \<or> c = 0x3000"

definition py_strip :: "ustr \<Rightarrow> ustr" where
  "py_strip s = rev (dropWhile py_isspace (rev (dropWhile py_isspace s)))"

text \<open>
  In a \<^verbatim>\<open>str\<close> pattern the class \<^verbatim>\<open>\d\<close> is every code point of the Unicode category Nd
  (decimal digit), of which the ASCII digits are the first ten. The table lists each run
  of the category as its first code point and its length (Unicode 14.0).
\<close>

definition decimal_ranges :: "(nat \<times> nat) list" where
  "decimal_ranges =
    [(0x30, 10), (0x660, 10), (0x6F0, 10), (0x7C0, 10), (0x966, 10), (0x9E6, 10),
     (0xA66, 10), (0xAE6, 10), (0xB66, 10), (0xBE6, 10), (0xC66, 10), (0xCE6, 10),
     (0xD66, 10), (0xDE6, 10), (0xE50, 10), (0xED0, 10), (0xF20, 10), (0x1040, 10),
     (0x1090, 10), (0x17E0, 10), (0x1810, 10), (0x1946, 10), (0x19D0, 10), (0x1A80, 10),
     (0x1A90, 10), (0x1B50, 10), (0x1BB0, 10), (0x1C40, 10), (0x1C50, 10), (0xA620, 10),
     (0xA8D0, 10), (0xA900, 10), (0xA9D0, 10), (0xA9F0, 10), (0xAA50, 10), (0xABF0, 10),
     (0xFF10, 10), (0x104A0, 10), (0x10D30, 10), (0x11066, 10), (0x110F0, 10),
     (0x11136, 10), (0x111D0, 10), (0x112F0, 10), (0x11450, 10), (0x114D0, 10),
     (0x11650, 10), (0x116C0, 10), (0x11730, 10), (0x118E0, 10), (0x11950, 10),
     (0x11C50, 10), (0x11D50, 10), (0x11DA0, 10), (0x16A60, 10), (0x16AC0, 10),
     (0x16B50, 10), (0x1D7CE, 50), (0x1E140, 10), (0x1E2F0, 10), (0x1E950, 10),
     (0x1FBF0, 10)]"

definition py_isdecimal :: "nat \<Rightarrow> bool" where
  "py_isdecimal c = list_ex (\<lambda>(lo, n). lo \<le> c \<and> c < lo + n) decimal_ranges"

definition ascii_digit :: "nat \<Rightarrow> bool" where
  "ascii_digit c \<longleftrightarrow> 0x30 \<le> c \<and> c \<le> 0x39"

section \<open>The follower-count recogniser\<close>

text \<open>
  \<^verbatim>\<open>
  def clean_followers(text):
      text = text.strip()
      if re.search(r'^[\d,]+(\.\d+)?[kKmM]?$', text):
          return text
      return ""
  \<close>
  Without \<^verbatim>\<open>re.MULTILINE\<close> the anchor \<^verbatim>\<open>^\<close> holds at the start of the text only, so the search
  is a match at position 0, and \<^verbatim>\<open>$\<close> holds at the end of the text and before a line feed
  that ends it. The matcher takes the digit class as an argument; every class of the
  pattern is disjoint from what may follow it, so the longest run is the only one that
  can lead to a match.
\<close>

definition is_magnitude :: "nat \<Rightarrow> bool" where
  "is_magnitude c \<longleftrightarrow> c \<in> set (str ''kKmM'')"

definition at_end :: "ustr \<Rightarrow> bool" where
  "at_end r \<longleftrightarrow> r = [] \<or> r = [0x0A]"

definition magnitude_end :: "ustr \<Rightarrow> bool" where
  "magnitude_end r \<longleftrightarrow> (r \<noteq> [] \<and> is_magnitude (hd r) \<and> at_end (tl r)) \<or> at_end r"

definition fraction_end :: "(nat \<Rightarrow> bool) \<Rightarrow> ustr \<Rightarrow> bool" where
  "fraction_end digit r \<longleftrightarrow>
     (r \<noteq> [] \<and> hd r = 0x2E \<and> takeWhile digit (tl r) \<noteq> [] \<and>
      magnitude_end (dropWhile digit (tl r))) \<or>
     magnitude_end r"

definition match_followers :: "(nat \<Rightarrow> bool) \<Rightarrow> ustr \<Rightarrow> bool" where
  "match_followers digit s \<longleftrightarrow>
     takeWhile (\<lambda>c. digit c \<or> c = 0x2C) s \<noteq> [] \<and>
     fraction_end digit (dropWhile (\<lambda>c. digit c \<or> c = 0x2C) s)"

definition clean_followers :: "ustr \<Rightarrow> ustr" where
  "clean_followers text =
     (let text = py_strip text in
      if match_followers py_isdecimal text then text else [])"

text \<open>
  The whole-string pattern in the words of the specification: one or more digits or
  commas, then optionally a point and one or more digits, then optionally one magnitude
  letter. The digit class is an argument: \<open>ascii_digit\<close> is the class \<^verbatim>\<open>[0-9]\<close>.
\<close>

definition followers_shape :: "(nat \<Rightarrow> bool) \<Rightarrow> ustr \<Rightarrow> bool" where
  "followers_shape digit s \<longleftrightarrow>
     (\<exists>a b c. s = a @ b @ c \<and>
        a \<noteq> [] \<and> list_all (\<lambda>x. digit x \<or> x = 0x2C) a \<and>
        (b = [] \<or> (\<exists>d. b = 0x2E # d \<and> d \<noteq> [] \<and> list_all digit d)) \<and>
        (c = [] \<or> (\<exists>m. c = [m] \<and> is_magnitude m)))"

section \<open>More string operations\<close>

text \<open>\<^verbatim>\<open>sub in s\<close>: the text \<open>sub\<close> occurs in \<open>s\<close> at some position.\<close>

fun py_in :: "ustr \<Rightarrow> ustr \<Rightarrow> bool" where
  "py_in sub [] \<longleftrightarrow> sub = []"
| "py_in sub (c # s) \<longleftrightarrow> take (length sub) (c # s) = sub \<or> py_in sub s"

text \<open>\<^verbatim>\<open>sep.join(xs)\<close>.\<close>

fun py_join :: "ustr \<Rightarrow> ustr list \<Rightarrow> ustr" where
  "py_join sep [] = []"
| "py_join sep [x] = x"
| "py_join sep (x # y # xs) = x @ sep @ py_join sep (y # xs)"

text \<open>
  \<^verbatim>\<open>str.upper()\<close> maps each code point on its own. The ASCII letters are mapped here; the
  full uppercase mapping of a code point beyond ASCII comes from the interpreter's Unicode
  tables and is the argument \<open>U\<close> (a code point may map to several, as U+00DF does).

  \<^verbatim>\<open>str.lower()\<close> maps a code point depending on its neighbours (the final sigma), so for
  a text with a code point beyond ASCII the whole mapping is the argument \<open>L\<close>.
\<close>

definition upper_cp :: "(nat \<Rightarrow> ustr) \<Rightarrow> nat \<Rightarrow> ustr" where
  "upper_cp U c = (if 0x61 \<le> c \<and> c \<le> 0x7A then [c - 0x20] else if c < 0x80 then [c] else U c)"

definition py_upper :: "(nat \<Rightarrow> ustr) \<Rightarrow> ustr \<Rightarrow> ustr" where
  "py_upper U s = concat (map (upper_cp U) s)"

definition lower_ascii :: "nat \<Rightarrow> nat" where
  "lower_ascii c = (if 0x41 \<le> c \<and> c \<le> 0x5A then c + 0x20 else c)"

definition py_lower :: "(ustr \<Rightarrow> ustr) \<Rightarrow> ustr \<Rightarrow> ustr" where
  "py_lower L s = (if list_all (\<lambda>c. c < 0x80) s then map lower_ascii s else L s)"

section \<open>Profile pages\<close>

text \<open>
  The scraper reads a parsed page through a few calls of the HTML library. The model takes
  a page as what those calls return:
  \<^item> an element is given by the strings inside it in document order, which is what
    \<^verbatim>\<open>get_text\<close> reads; \<^verbatim>\<open>get_text(strip=True)\<close> strips each string, drops the empty ones and
    joins the rest with nothing between them;
  \<^item> a node beside an anchor is a string or an element;
  \<^item> an anchor is its raw \<^verbatim>\<open>href\<close>, its \<^verbatim>\<open>next_sibling\<close> (if any) and, if it has a parent,
    the parent's \<^verbatim>\<open>find_next_siblings()\<close>.
\<close>

datatype node = Str ustr | Tag "ustr list"

definition get_text_strip :: "ustr list \<Rightarrow> ustr" where
  "get_text_strip strings = concat (filter (\<lambda>t. t \<noteq> []) (map py_strip strings))"

record anchor =
  href :: ustr
  next_sibling :: "node option"
  parent_next_siblings :: "node list option"

record page =
  h1 :: "ustr list option"
  content_divs :: "ustr list list list"
  all_links :: "anchor list"

subsection \<open>Follower count beside an anchor\<close>

text \<open>
  \<^verbatim>\<open>
  if hasattr(sibling, 'get_text'): stext = sibling.get_text(strip=True)
  else: stext = str(sibling).strip()
  \<close>
\<close>

fun sibling_text :: "node \<Rightarrow> ustr" where
  "sibling_text (Tag strings) = get_text_strip strings"
| "sibling_text (Str s) = py_strip s"

text \<open>
  \<^verbatim>\<open>
  for sibling in link.parent.find_next_siblings():
      ...
      cleaned = clean_followers(stext)
      if cleaned:
          found_followers = cleaned
          break
      if len(stext) > 20: break
  \<close>
\<close>

fun walk_siblings :: "node list \<Rightarrow> ustr" where
  "walk_siblings [] = []"
| "walk_siblings (sibling # rest) =
     (let stext = sibling_text sibling; cleaned = clean_followers stext in
      if cleaned \<noteq> [] then cleaned
      else if length stext > 20 then []
      else walk_siblings rest)"

text \<open>
  The search of one anchor, the same text in the source for both platforms: first the
  next sibling when it is a non-empty string, then the walk over the parent's following
  siblings.
\<close>

definition find_followers :: "anchor \<Rightarrow> ustr" where
  "find_followers link =
     (let found_followers =
        (case next_sibling link of
           Some (Str next_node) \<Rightarrow> if next_node \<noteq> [] then clean_followers next_node else []
         | _ \<Rightarrow> [])
      in if found_followers = [] then
           (case parent_next_siblings link of
              Some siblings \<Rightarrow> walk_siblings siblings
            | None \<Rightarrow> [])
         else found_followers)"

subsection \<open>Handles and follower counts of the two platforms\<close>

record socials =
  ig_handle :: ustr
  ig_followers :: ustr
  tt_handle :: ustr
  tt_followers :: ustr

definition is_instagram :: "(ustr \<Rightarrow> ustr) \<Rightarrow> anchor \<Rightarrow> bool" where
  "is_instagram L link \<longleftrightarrow> py_in (str ''instagram.com'') (py_lower L (href link))"

definition is_tiktok :: "(ustr \<Rightarrow> ustr) \<Rightarrow> anchor \<Rightarrow> bool" where
  "is_tiktok L link \<longleftrightarrow> py_in (str ''tiktok.com'') (py_lower L (href link))"

definition instagram_step :: "(ustr \<Rightarrow> ustr) \<Rightarrow> anchor \<Rightarrow> socials \<Rightarrow> socials" where
  "instagram_step L link st =
     (if is_instagram L link then
        if ig_followers st = [] then
          (let found_followers = find_followers link in
           if found_followers \<noteq> [] then
             st\<lparr>ig_followers := found_followers, ig_handle := href link\<rparr>
           else if ig_handle st = [] then st\<lparr>ig_handle := href link\<rparr>
           else st)
        else st
      else st)"

definition tiktok_step :: "(ustr \<Rightarrow> ustr) \<Rightarrow> anchor \<Rightarrow> socials \<Rightarrow> socials" where
  "tiktok_step L link st =
     (if is_tiktok L link then
        if tt_followers st = [] then
          (let found_followers = find_followers link in
           if found_followers \<noteq> [] then
             st\<lparr>tt_followers := found_followers, tt_handle := href link\<rparr>
           else if tt_handle st = [] then st\<lparr>tt_handle := href link\<rparr>
           else st)
        else st
      else st)"

fun links_loop :: "(ustr \<Rightarrow> ustr) \<Rightarrow> socials \<Rightarrow> anchor list \<Rightarrow> socials" where
  "links_loop L st [] = st"
| "links_loop L st (link # rest) = links_loop L (tiktok_step L link (instagram_step L link st)) rest"

definition social_links :: "(ustr \<Rightarrow> ustr) \<Rightarrow> anchor list \<Rightarrow> socials" where
  "social_links L links =
     links_loop L \<lparr>ig_handle = [], ig_followers = [], tt_handle = [], tt_followers = []\<rparr> links"

subsection \<open>Biography\<close>

text \<open>
  \<^verbatim>\<open>re.match(r'^[\d,.]+[kKmM]?$', text)\<close>: a run of digits, commas and points, then
  optionally one magnitude letter, up to the end.
\<close>

definition match_token :: "(nat \<Rightarrow> bool) \<Rightarrow> ustr \<Rightarrow> bool" where
  "match_token digit s \<longleftrightarrow>
     takeWhile (\<lambda>c. digit c \<or> c = 0x2C \<or> c = 0x2E) s \<noteq> [] \<and>
     magnitude_end (dropWhile (\<lambda>c. digit c \<or> c = 0x2C \<or> c = 0x2E) s)"

text \<open>
  \<^verbatim>\<open>
  for div in content_divs:
      for p in div.find_all('p'):
          text = p.get_text(strip=True)
          if not text: continue
          upper_text = text.upper()
          if "TIKTOK" in upper_text or "INSTAGRAM" in upper_text: continue
          if "FOLLOWERS" in upper_text or "CONTACT" in upper_text: continue
          if re.match(r'^[\d,.]+[kKmM]?$', text): continue
          paragraphs.append(text)
  bio_text = " ".join(paragraphs[:5])
  \<close>
\<close>

fun div_loop :: "(nat \<Rightarrow> ustr) \<Rightarrow> ustr list \<Rightarrow> ustr list list \<Rightarrow> ustr list" where
  "div_loop U paragraphs [] = paragraphs"
| "div_loop U paragraphs (p # ps) =
     (let text = get_text_strip p in
      if text = [] then div_loop U paragraphs ps
      else
        let upper_text = py_upper U text in
        if py_in (str ''TIKTOK'') upper_text \<or> py_in (str ''INSTAGRAM'') upper_text
        then div_loop U paragraphs ps
        else if py_in (str ''FOLLOWERS'') upper_text \<or> py_in (str ''CONTACT'') upper_text
        then div_loop U paragraphs ps
        else if match_token py_isdecimal text then div_loop U paragraphs ps
        else div_loop U (paragraphs @ [text]) ps)"

fun divs_loop :: "(nat \<Rightarrow> ustr) \<Rightarrow> ustr list \<Rightarrow> ustr list list list \<Rightarrow> ustr list" where
  "divs_loop U paragraphs [] = paragraphs"
| "divs_loop U paragraphs (d # ds) = divs_loop U (div_loop U paragraphs d) ds"

definition bio_text :: "(nat \<Rightarrow> ustr) \<Rightarrow> ustr list list list \<Rightarrow> ustr" where
  "bio_text U divs = py_join (str '' '') (take 5 (divs_loop U [] divs))"

text \<open>
  The filter in the words of the specification: the token shape is a non-empty run of
  digits, commas and points, optionally followed by one magnitude letter; a paragraph
  survives when its text is not empty, has none of the four words in its uppercase form
  and is not of the token shape.
\<close>

definition token_shape :: "(nat \<Rightarrow> bool) \<Rightarrow> ustr \<Rightarrow> bool" where
  "token_shape digit s \<longleftrightarrow>
     (\<exists>a c. s = a @ c \<and> a \<noteq> [] \<and> list_all (\<lambda>x. digit x \<or> x = 0x2C \<or> x = 0x2E) a \<and>
        (c = [] \<or> (\<exists>m. c = [m] \<and> is_magnitude m)))"

definition survives :: "(nat \<Rightarrow> ustr) \<Rightarrow> ustr \<Rightarrow> bool" where
  "survives U text \<longleftrightarrow>
     text \<noteq> [] \<and>
     \<not> py_in (str ''TIKTOK'') (py_upper U text) \<and>
     \<not> py_in (str ''INSTAGRAM'') (py_upper U text) \<and>
     \<not> py_in (str ''FOLLOWERS'') (py_upper U text) \<and>
     \<not> py_in (str ''CONTACT'') (py_upper U text) \<and>
     \<not> token_shape py_isdecimal text"

text \<open>
  A word in any letter case: each letter of \<open>w\<close> is the capital letter at its place in
  \<open>target\<close> or the small letter of it.
\<close>

definition any_case :: "ustr \<Rightarrow> ustr \<Rightarrow> bool" where
  "any_case target w \<longleftrightarrow> list_all2 (\<lambda>t c. c = t \<or> c = t + 0x20) target w"

subsection \<open>One profile, and the loop over the candidates\<close>

text \<open>
  Fetching a page either raises, or returns a response with a status code and a body.
  Inside the same \<^verbatim>\<open>try\<close> block the HTML library then parses the body:
  \<^verbatim>\<open>soup = BeautifulSoup(response.content, 'html.parser')\<close>. The parser either builds the page
  or raises on markup it rejects; \<open>Rejected\<close> keeps the markup of such a body. A record is
  the row of the CSV file.
\<close>

datatype body = Rejected ustr | Parsed page

datatype fetched = Raised | Response nat body

record profile =
  Name :: ustr
  Page_URL :: ustr
  Bio :: ustr
  Instagram :: ustr
  Instagram_Followers :: ustr
  TikTok :: ustr
  TikTok_Followers :: ustr
  Image_URL :: ustr

text \<open>
  The body of the \<^verbatim>\<open>try\<close> block; \<open>None\<close> is the page skipped: the request raised, the
  status is not 200, or the parser raised.
\<close>

definition scrape_profile ::
    "(nat \<Rightarrow> ustr) \<Rightarrow> (ustr \<Rightarrow> ustr) \<Rightarrow> ustr \<Rightarrow> ustr \<Rightarrow> fetched \<Rightarrow> profile option" where
  "scrape_profile U L url image_url response =
     (case response of
        Raised \<Rightarrow> None
      | Response status_code content \<Rightarrow>
          if status_code \<noteq> 200 then None
          else
            (case content of
               Rejected markup \<Rightarrow> None
             | Parsed soup \<Rightarrow>
                 let name = (case h1 soup of Some name_tag \<Rightarrow> get_text_strip name_tag
                             | None \<Rightarrow> str ''Unknown'');
                     bio = bio_text U (content_divs soup);
                     st = social_links L (all_links soup)
                 in Some \<lparr>Name = name, Page_URL = url, Bio = bio,
                          Instagram = ig_handle st, Instagram_Followers = ig_followers st,
                          TikTok = tt_handle st, TikTok_Followers = tt_followers st,
                          Image_URL = image_url\<rparr>))"

text \<open>
  The claim about a missing heading speaks of every page whose fetch succeeds. In its
  words, a fetched body has no level-1 heading when the parsed page has no \<^verbatim>\<open>h1\<close> element,
  or, for a body that does not parse, when its markup has no \<^verbatim>\<open>h1\<close> tag at all.
\<close>

definition no_heading :: "body \<Rightarrow> bool" where
  "no_heading content =
     (case content of
        Parsed soup \<Rightarrow> h1 soup = None
      | Rejected markup \<Rightarrow> \<not> py_in (str ''<h1'') markup \<and> \<not> py_in (str ''<H1'') markup)"

fun scrape_profiles ::
    "(nat \<Rightarrow> ustr) \<Rightarrow> (ustr \<Rightarrow> ustr) \<Rightarrow> (ustr \<Rightarrow> fetched) \<Rightarrow> (ustr \<times> ustr) list \<Rightarrow> profile list" where
  "scrape_profiles U L get [] = []"
| "scrape_profiles U L get ((url, image_url) # rest) =
     (case scrape_profile U L url image_url (get url) of
        None \<Rightarrow> scrape_profiles U L get rest
      | Some record \<Rightarrow> record # scrape_profiles U L get rest)"

section \<open>The listing collector\<close>

text \<open>
  \<^verbatim>\<open>s.replace(old, new)\<close> replaces the occurrences of \<open>old\<close> from left to right, without
  overlap; an empty \<open>old\<close> matches before every code point and at the end.
\<close>

function py_replace :: "ustr \<Rightarrow> ustr \<Rightarrow> ustr \<Rightarrow> ustr" where
  "py_replace old new [] = (if old = [] then new else [])"
| "py_replace old new (c # s) =
     (if old = [] then new @ c # py_replace old new s
      else if take (length old) (c # s) = old
      then new @ py_replace old new (drop (length old) (c # s))
      else c # py_replace old new s)"
  by pat_completeness auto
termination
  by (relation "measure (\<lambda>(old, new, s). length s)") auto

definition startswith :: "ustr \<Rightarrow> ustr \<Rightarrow> bool" where
  "startswith s pre \<longleftrightarrow> take (length pre) s = pre"

text \<open>
  An anchor of the listing page, as the collector reads it: its raw \<^verbatim>\<open>href\<close>, the name and
  the \<^verbatim>\<open>id\<close> attribute of each of its \<^verbatim>\<open>parents\<close>, and the first \<^verbatim>\<open>img\<close> element inside
  it, if any, with its \<^verbatim>\<open>data-src\<close> and \<^verbatim>\<open>src\<close> attributes. An element is always true in a
  condition, so \<^verbatim>\<open>if img\<close> asks whether there is one.
\<close>

record image =
  data_src :: "ustr option"
  src :: "ustr option"

record listing_anchor =
  a_href :: ustr
  a_parents :: "(ustr \<times> ustr option) list"
  a_img :: "image option"

definition base_url :: ustr where
  "base_url = str ''https://www.liquorice.co.nz''"

definition excluded_paths :: "ustr list" where
  "excluded_paths = [[], str ''/'', str ''/influencers-nz'', str ''/contact'',
     str ''/who-are-we'', str ''/how-influencer-marketing-works'']"

text \<open>
  \<^verbatim>\<open>
  for p in link.parents:
      if p.name in ['header', 'footer', 'nav']: is_nav_footer = True; break
      if p.get('id') in ['header', 'footer', 'mobileNav']: is_nav_footer = True; break
  \<close>
\<close>

fun is_nav_footer :: "(ustr \<times> ustr option) list \<Rightarrow> bool" where
  "is_nav_footer [] = False"
| "is_nav_footer ((name, ident) # ps) =
     (if name \<in> set [str ''header'', str ''footer'', str ''nav''] then True
      else if ident \<in> set [Some (str ''header''), Some (str ''footer''), Some (str ''mobileNav'')]
      then True
      else is_nav_footer ps)"

text \<open>\<^verbatim>\<open>img.get('data-src') or img.get('src')\<close>: the first when it is there and not empty.\<close>

definition py_or :: "ustr option \<Rightarrow> ustr option \<Rightarrow> ustr option" where
  "py_or a b = (case a of Some v \<Rightarrow> if v \<noteq> [] then a else b | None \<Rightarrow> b)"

text \<open>
  The body of the loop over the anchors with an \<^verbatim>\<open>href\<close>: \<open>None\<close> when the anchor is passed
  over, otherwise the key and the value stored in \<^verbatim>\<open>profiles_to_scrape\<close>. \<^verbatim>\<open>urljoin\<close> is the
  URL library's and is an argument.
\<close>

definition candidate :: "(ustr \<Rightarrow> ustr \<Rightarrow> ustr) \<Rightarrow> listing_anchor \<Rightarrow> (ustr \<times> ustr) option" where
  "candidate urljoin link =
     (let href = a_href link; full_url = urljoin base_url href in
      if \<not> startswith full_url base_url then None
      else
        let path = py_replace base_url [] full_url in
        if path \<in> set excluded_paths then None
        else if py_in (str ''mailto:'') href \<or> py_in (str ''tel:'') href then None
        else if is_nav_footer (a_parents link) then None
        else
          (case a_img link of
             None \<Rightarrow> None
           | Some img \<Rightarrow>
               (case py_or (data_src img) (src img) of
                  None \<Rightarrow> None
                | Some img_src \<Rightarrow>
                    if img_src = [] then None
                    else Some (full_url,
                      if startswith img_src (str ''//'') then str ''https:'' @ img_src
                      else img_src))))"

text \<open>
  \<^verbatim>\<open>d[k] = v\<close> on a dictionary, which keeps the order of first insertion.
\<close>

fun dict_set :: "'k \<Rightarrow> 'v \<Rightarrow> ('k \<times> 'v) list \<Rightarrow> ('k \<times> 'v) list" where
  "dict_set k v [] = [(k, v)]"
| "dict_set k v ((k', v') # d) = (if k' = k then (k, v) # d else (k', v') # dict_set k v d)"

fun listing_loop ::
    "(ustr \<Rightarrow> ustr \<Rightarrow> ustr) \<Rightarrow> (ustr \<times> ustr) list \<Rightarrow> listing_anchor list \<Rightarrow> (ustr \<times> ustr) list" where
  "listing_loop urljoin profiles_to_scrape [] = profiles_to_scrape"
| "listing_loop urljoin profiles_to_scrape (link # rest) =
     (case candidate urljoin link of
        None \<Rightarrow> listing_loop urljoin profiles_to_scrape rest
      | Some (full_url, img_src) \<Rightarrow>
          listing_loop urljoin (dict_set full_url img_src profiles_to_scrape) rest)"

section \<open>The record transformer\<close>

text \<open>
  A row of \<^verbatim>\<open>csv.DictReader\<close> maps the column names of the header to the cells of the
  line; a line shorter than the header has \<^verbatim>\<open>None\<close> in the columns it lacks. Reading a
  column that the header lacks raises \<^verbatim>\<open>KeyError\<close>, and \<^verbatim>\<open>.replace\<close> on \<^verbatim>\<open>None\<close> raises
  \<^verbatim>\<open>AttributeError\<close>; neither script catches them.
\<close>

type_synonym row = "ustr \<rightharpoonup> ustr option"

datatype error = KeyError ustr | AttributeError

definition and_then :: "error + 'a \<Rightarrow> ('a \<Rightarrow> error + 'b) \<Rightarrow> error + 'b" where
  "and_then r f = (case r of Inl e \<Rightarrow> Inl e | Inr v \<Rightarrow> f v)"

text \<open>\<^verbatim>\<open>row[key].replace("'", "''")\<close>, the single quote being the code point 0x27.\<close>

definition esc :: "ustr \<Rightarrow> ustr" where
  "esc s = py_replace [0x27] [0x27, 0x27] s"

definition escaped :: "row \<Rightarrow> ustr \<Rightarrow> error + ustr" where
  "escaped row key =
     (case row key of
        None \<Rightarrow> Inl (KeyError key)
      | Some None \<Rightarrow> Inl AttributeError
      | Some (Some v) \<Rightarrow> Inr (esc v))"

definition user_id :: ustr where
  "user_id = str ''eff94470-6759-4490-9c94-8277546e8ea9''"

definition columns :: "ustr list" where
  "columns = [str ''user_id'', str ''name'', str ''category'', str ''status'',
     str ''avatar_url'', str ''instagram_handle'', str ''followers'',
     str ''tiktok_handle'', str ''tiktok_followers'', str ''source_url'', str ''bio'']"

definition delete_statement :: ustr where
  "delete_statement = str ''DELETE FROM public.talents;''"

text \<open>
  \<^verbatim>\<open>
  category = "Influencer"
  if "sports" in source_url: category = "Sports"
  elif "beauty" in source_url: category = "Beauty"
  elif "fashion" in source_url: category = "Fashion"
  elif "food" in source_url: category = "Food"
  elif "lifestyle" in source_url: category = "Lifestyle"
  \<close>
\<close>

definition category_of :: "ustr \<Rightarrow> ustr" where
  "category_of source_url =
     (if py_in (str ''sports'') source_url then str ''Sports''
      else if py_in (str ''beauty'') source_url then str ''Beauty''
      else if py_in (str ''fashion'') source_url then str ''Fashion''
      else if py_in (str ''food'') source_url then str ''Food''
      else if py_in (str ''lifestyle'') source_url then str ''Lifestyle''
      else str ''Influencer'')"

text \<open>
  The f-string of both scripts puts each of its eleven values between single quotes,
  separates them by a comma and a space, and encloses them in parentheses:
  \<^verbatim>\<open>('v1', 'v2', ..., 'v11')\<close>. The code points are those of \<^verbatim>\<open>('\<close>, of \<^verbatim>\<open>', '\<close> and of \<^verbatim>\<open>')\<close>.
\<close>

definition value_tuple :: "ustr list \<Rightarrow> ustr" where
  "value_tuple vs = [0x28, 0x27] @ py_join [0x27, 0x2C, 0x20, 0x27] vs @ [0x27, 0x29]"

subsection \<open>One statement for all rows\<close>

text \<open>The body of the loop of \<^verbatim>\<open>generate_sql.py\<close>, up to \<^verbatim>\<open>val_str\<close>.\<close>

definition val_str :: "row \<Rightarrow> error + ustr" where
  "val_str row =
     and_then (escaped row (str ''Name'')) (\<lambda>name.
     and_then (escaped row (str ''Page URL'')) (\<lambda>source_url.
     and_then (escaped row (str ''Image URL'')) (\<lambda>avatar_url.
     and_then (escaped row (str ''Bio'')) (\<lambda>bio.
     and_then (escaped row (str ''Instagram'')) (\<lambda>ig_handle.
     and_then (escaped row (str ''Instagram Followers'')) (\<lambda>ig_followers.
     and_then (escaped row (str ''TikTok'')) (\<lambda>tt_handle.
     and_then (escaped row (str ''TikTok Followers'')) (\<lambda>tt_followers.
       let category = category_of source_url;
           status = str ''active''
       in Inr (value_tuple [user_id, name, category, status, avatar_url, ig_handle,
                 ig_followers, tt_handle, tt_followers, source_url, bio])))))))))"

fun values_loop :: "ustr list \<Rightarrow> row list \<Rightarrow> error + ustr list" where
  "values_loop values [] = Inr values"
| "values_loop values (row # rest) =
     and_then (val_str row) (\<lambda>v. values_loop (values @ [v]) rest)"

text \<open>
  What a script prints, statement by statement, and the exception that ends it, if any.
  \<^verbatim>\<open>generate_sql.py\<close> prints the deletion, reads all rows, and then prints the one
  insertion; the values are joined by a comma and a line feed.
\<close>

definition generate_sql :: "row list \<Rightarrow> ustr list \<times> error option" where
  "generate_sql rows =
     (case values_loop [] rows of
        Inl e \<Rightarrow> ([delete_statement], Some e)
      | Inr values \<Rightarrow>
          let all_vals = py_join [0x2C, 0x0A] values;
              full_query = str ''INSERT INTO public.talents ('' @ py_join (str '', '') columns @
                           str '') VALUES '' @ all_vals @ str '';''
          in ([delete_statement, full_query], None))"

subsection \<open>One statement per row\<close>

text \<open>The body of the loop of \<^verbatim>\<open>generate_sql_lines.py\<close>, up to \<^verbatim>\<open>val_str\<close>.\<close>

definition val_str_lines :: "row \<Rightarrow> error + ustr" where
  "val_str_lines row =
     and_then (escaped row (str ''Name'')) (\<lambda>name.
     and_then (escaped row (str ''Page URL'')) (\<lambda>source_url.
     and_then (escaped row (str ''Image URL'')) (\<lambda>avatar_url.
     and_then (escaped row (str ''Bio'')) (\<lambda>bio.
     and_then (escaped row (str ''Instagram'')) (\<lambda>ig_handle.
     and_then (escaped row (str ''Instagram Followers'')) (\<lambda>ig_followers.
     and_then (escaped row (str ''TikTok'')) (\<lambda>tt_handle.
     and_then (escaped row (str ''TikTok Followers'')) (\<lambda>tt_followers.
       let category = category_of source_url;
           status = str ''active'';
           val_str = value_tuple [user_id, name, category, status, avatar_url, ig_handle,
                       ig_followers, tt_handle, tt_followers, source_url, bio]
       in Inr val_str))))))))"

definition insert_line :: "ustr \<Rightarrow> ustr" where
  "insert_line v = str ''INSERT INTO public.talents ('' @ py_join (str '', '') columns @
                   str '') VALUES '' @ v @ str '';''"

fun lines_loop :: "row list \<Rightarrow> ustr list \<times> error option" where
  "lines_loop [] = ([], None)"
| "lines_loop (row # rest) =
     (case val_str_lines row of
        Inl e \<Rightarrow> ([], Some e)
      | Inr v \<Rightarrow> (case lines_loop rest of (printed, exc) \<Rightarrow> (insert_line v # printed, exc)))"

definition generate_sql_lines :: "row list \<Rightarrow> ustr list \<times> error option" where
  "generate_sql_lines rows =
     (case lines_loop rows of (printed, exc) \<Rightarrow> (delete_statement # printed, exc))"

section \<open>Example inputs\<close>

text \<open>Small pages on which the properties below are evaluated.\<close>

definition counted_anchor :: anchor where
  "counted_anchor =
     \<lparr>href = str ''//instagram.com/b'', next_sibling = Some (Str (str '' 12.3k '')),
       parent_next_siblings = Some []\<rparr>"

definition example_links :: "anchor list" where
  "example_links =
     [\<lparr>href = str ''//Instagram.com/a'', next_sibling = None, parent_next_siblings = Some []\<rparr>,
      counted_anchor,
      \<lparr>href = str ''//instagram.com/c'', next_sibling = Some (Str (str ''5k'')),
        parent_next_siblings = Some []\<rparr>]"

definition example_divs :: "ustr list list list" where
  "example_divs =
     [[[str '' Hello ''], [str ''12.3k''], [str ''10k '', str ''followers'']], [[str ''World'']]]"

definition rejected_markup :: ustr where
  "rejected_markup = str ''<p>a</p><![a b]>''"

definition example_page :: page where
  "example_page = \<lparr>h1 = None, content_divs = example_divs, all_links = example_links\<rparr>"

definition example_row :: row where
  "example_row =
     (\<lambda>k. None)(str ''Name'' \<mapsto> Some (str ''Jane Doe''),
       str ''Page URL'' \<mapsto> Some (str ''https://example.com/talent/jane-doe-sports-fan''),
       str ''Image URL'' \<mapsto> Some (str ''https://example.com/j.png''),
       str ''Bio'' \<mapsto> Some (str ''Runs.''),
       str ''Instagram'' \<mapsto> Some (str ''https://instagram.com/janedoe''),
       str ''Instagram Followers'' \<mapsto> Some (str ''12.3k''),
       str ''TikTok'' \<mapsto> Some [],
       str ''TikTok Followers'' \<mapsto> Some [])"

definition example_row_quote :: row where
  "example_row_quote =
     (\<lambda>k. None)(str ''Name'' \<mapsto> Some (str ''O'Brien''),
       str ''Page URL'' \<mapsto> Some (str ''/talent/ob-beauty-sports''),
       str ''Image URL'' \<mapsto> Some [],
       str ''Bio'' \<mapsto> Some [],
       str ''Instagram'' \<mapsto> Some [],
       str ''Instagram Followers'' \<mapsto> Some [],
       str ''TikTok'' \<mapsto> Some [],
       str ''TikTok Followers'' \<mapsto> Some [])"

definition example_tuple :: ustr where
  "example_tuple =
     value_tuple [user_id, str ''Jane Doe'', str ''Sports'', str ''active'',
       str ''https://example.com/j.png'', str ''https://instagram.com/janedoe'', str ''12.3k'',
       [], [], str ''https://example.com/talent/jane-doe-sports-fan'', str ''Runs.'']"

definition tile_listing :: listing_anchor where
  "tile_listing =
     \<lparr>a_href = str ''/influencers-nz'', a_parents = [],
       a_img = Some \<lparr>data_src = None, src = Some (str ''/i.png'')\<rparr>\<rparr>"

definition tile_no_image :: listing_anchor where
  "tile_no_image = \<lparr>a_href = str ''/talent/a'', a_parents = [], a_img = None\<rparr>"

definition tile_profile :: listing_anchor where
  "tile_profile =
     \<lparr>a_href = str ''/talent/b'', a_parents = [(str ''div'', None)],
       a_img = Some \<lparr>data_src = Some (str ''//cdn/b.png''), src = Some (str ''/b.png'')\<rparr>\<rparr>"

definition example_tiles :: "listing_anchor list" where
  "example_tiles = [tile_listing, tile_no_image, tile_profile]"

section \<open>Properties of the follower-count recogniser\<close>

lemma strip_last: "py_strip s = [] \<or> \<not> py_isspace (last (py_strip s))"
proof (cases "py_strip s = []")
  case False
  then have ne: "dropWhile py_isspace (rev (dropWhile py_isspace s)) \<noteq> []"
    by (simp add: py_strip_def)
  have "last (py_strip s) = hd (dropWhile py_isspace (rev (dropWhile py_isspace s)))"
    by (simp add: py_strip_def last_rev)
  with ne show ?thesis by (simp add: hd_dropWhile)
qed simp


lemma run_then_rest:
  "list_all P a \<Longrightarrow> r = [] \<or> \<not> P (hd r) \<Longrightarrow> takeWhile P (a @ r) = a \<and> dropWhile P (a @ r) = r"
  by (induction a) (cases r; auto)+

lemma is_magnitude_iff: "is_magnitude c \<longleftrightarrow> c = 107 \<or> c = 75 \<or> c = 109 \<or> c = 77"
  by (auto simp: is_magnitude_def str_def)

lemma at_end_suffix:
  "at_end r \<Longrightarrow> s = p @ r \<Longrightarrow> s = [] \<or> last s \<noteq> 10 \<Longrightarrow> r = []"
  by (auto simp: at_end_def)

lemma magnitude_end_shape:
  assumes "magnitude_end r" "s = p @ r" "s = [] \<or> last s \<noteq> 10"
  shows "r = [] \<or> (\<exists>m. r = [m] \<and> is_magnitude m)"
proof -
  from assms(1) consider "r \<noteq> []" "is_magnitude (hd r)" "at_end (tl r)" | "at_end r"
    by (auto simp: magnitude_end_def)
  then show ?thesis
  proof cases
    case 1
    then obtain m t where r: "r = m # t" by (cases r) auto
    with assms(2) have "s = (p @ [m]) @ t" by simp
    with 1(3) r assms(3) have "t = []" using at_end_suffix by (metis list.sel(3))
    with r 1(2) show ?thesis by simp
  next
    case 2
    with assms show ?thesis using at_end_suffix by blast
  qed
qed

lemma shape_magnitude_end: "c = [] \<or> (\<exists>m. c = [m] \<and> is_magnitude m) \<Longrightarrow> magnitude_end c"
  by (auto simp: magnitude_end_def at_end_def)

lemma match_imp_shape:
  assumes m: "match_followers D s" and nl: "s = [] \<or> last s \<noteq> 10"
  shows "followers_shape D s"
proof -
  let ?P = "\<lambda>c. D c \<or> c = 0x2C"
  let ?a = "takeWhile ?P s" and ?r = "dropWhile ?P s"
  have s: "s = ?a @ ?r" by simp
  have a: "?a \<noteq> []" "list_all ?P ?a"
    using m by (auto simp: match_followers_def list_all_iff dest: set_takeWhileD)
  from m have "fraction_end D ?r" by (simp add: match_followers_def)
  then consider
    (frac) "?r \<noteq> []" "hd ?r = 0x2E" "takeWhile D (tl ?r) \<noteq> []" "magnitude_end (dropWhile D (tl ?r))"
    | (plain) "magnitude_end ?r"
    by (auto simp: fraction_end_def)
  then show ?thesis
  proof cases
    case frac
    let ?d = "takeWhile D (tl ?r)" and ?c = "dropWhile D (tl ?r)"
    have r: "?r = 0x2E # ?d @ ?c" using frac(1,2) by (cases ?r) auto
    have "s = (?a @ 0x2E # ?d) @ ?c" using s r by (metis append.assoc append_Cons)
    with frac(4) nl have c: "?c = [] \<or> (\<exists>m. ?c = [m] \<and> is_magnitude m)"
      using magnitude_end_shape by blast
    have d: "list_all D ?d" by (auto simp: list_all_iff dest: set_takeWhileD)
    have "s = ?a @ (0x2E # ?d) @ ?c" using s r by simp
    with a frac(3) c d show ?thesis unfolding followers_shape_def by blast
  next
    case plain
    with nl s have c: "?r = [] \<or> (\<exists>m. ?r = [m] \<and> is_magnitude m)"
      using magnitude_end_shape by blast
    have "s = ?a @ [] @ ?r" by simp
    with a c show ?thesis unfolding followers_shape_def by blast
  qed
qed

lemma shape_imp_match:
  assumes sh: "followers_shape D s" and D: "\<not> D 0x2E" "\<And>m. is_magnitude m \<Longrightarrow> \<not> D m"
  shows "match_followers D s"
proof -
  let ?P = "\<lambda>c. D c \<or> c = 0x2C"
  from sh obtain a b c where s: "s = a @ b @ c" and a: "a \<noteq> []" "list_all ?P a"
    and b: "b = [] \<or> (\<exists>d. b = 0x2E # d \<and> d \<noteq> [] \<and> list_all D d)"
    and c: "c = [] \<or> (\<exists>m. c = [m] \<and> is_magnitude m)"
    unfolding followers_shape_def by blast
  have mag: "\<not> ?P m" if "is_magnitude m" for m
    using that D(2)[OF that] by (auto simp: is_magnitude_iff)
  have cP: "c = [] \<or> \<not> ?P (hd c)"
  proof (cases "c = []")
    case False
    with c obtain m where "c = [m]" "is_magnitude m" by blast
    then show ?thesis using mag by simp
  qed simp
  have cD: "c = [] \<or> \<not> D (hd c)" using cP by blast
  have bcP: "b @ c = [] \<or> \<not> ?P (hd (b @ c))"
  proof (cases "b = []")
    case True
    then show ?thesis using cP by simp
  next
    case False
    with b obtain d where "b = 0x2E # d" by blast
    then show ?thesis using D(1) by simp
  qed
  have split: "takeWhile ?P (a @ b @ c) = a \<and> dropWhile ?P (a @ b @ c) = b @ c"
    by (rule run_then_rest[OF a(2) bcP])
  have "fraction_end D (b @ c)"
  proof (cases "b = []")
    case True
    then show ?thesis using c by (simp add: fraction_end_def shape_magnitude_end)
  next
    case False
    with b obtain d where d: "b = 0x2E # d" "d \<noteq> []" "list_all D d" by blast
    have "takeWhile D (d @ c) = d \<and> dropWhile D (d @ c) = c"
      by (rule run_then_rest[OF d(3) cD])
    with d c show ?thesis by (simp add: fraction_end_def shape_magnitude_end)
  qed
  with split a show ?thesis unfolding match_followers_def s by simp
qed


lemma decimal_ascii: "ascii_digit c \<Longrightarrow> py_isdecimal c"
  by (simp add: ascii_digit_def py_isdecimal_def decimal_ranges_def)

lemma decimal_not_point: "\<not> py_isdecimal 0x2E"
  by (simp add: py_isdecimal_def decimal_ranges_def)

lemma decimal_not_magnitude: "is_magnitude m \<Longrightarrow> \<not> py_isdecimal m"
  unfolding is_magnitude_iff by (elim disjE) (simp_all add: py_isdecimal_def decimal_ranges_def)

lemma ascii_not_point: "\<not> ascii_digit 0x2E"
  by (simp add: ascii_digit_def)

lemma ascii_not_magnitude: "is_magnitude m \<Longrightarrow> \<not> ascii_digit m"
  by (auto simp: is_magnitude_iff ascii_digit_def)

lemma strip_no_final_newline: "py_strip s = [] \<or> last (py_strip s) \<noteq> 10"
  using strip_last[of s] by (auto simp: py_isspace_def)

lemma match_is_shape:
  assumes "\<not> D 0x2E" and "\<And>m. is_magnitude m \<Longrightarrow> \<not> D m" and "s = [] \<or> last s \<noteq> 10"
  shows "match_followers D s = followers_shape D s"
  using assms match_imp_shape shape_imp_match by blast

lemma shape_mono:
  assumes "\<And>c. D c \<Longrightarrow> E c" and "followers_shape D s"
  shows "followers_shape E s"
proof -
  from assms(2) obtain a b c where s: "s = a @ b @ c" and a: "a \<noteq> []" "list_all (\<lambda>x. D x \<or> x = 0x2C) a"
    and b: "b = [] \<or> (\<exists>d. b = 0x2E # d \<and> d \<noteq> [] \<and> list_all D d)"
    and c: "c = [] \<or> (\<exists>m. c = [m] \<and> is_magnitude m)"
    unfolding followers_shape_def by blast
  have a': "list_all (\<lambda>x. E x \<or> x = 0x2C) a"
    using a(2) assms(1) by (auto simp: list_all_iff)
  have b': "b = [] \<or> (\<exists>d. b = 0x2E # d \<and> d \<noteq> [] \<and> list_all E d)"
    using b assms(1) by (auto simp: list_all_iff)
  from s a(1) a' b' c show ?thesis unfolding followers_shape_def by blast
qed

lemma unicode_digit_663: "py_isdecimal 0x663"
  by (simp add: py_isdecimal_def decimal_ranges_def)

lemma strip_663: "py_strip [0x663] = [0x663]"
  by (simp add: py_strip_def py_isspace_def)

lemma clean_663: "clean_followers [0x663] = [0x663]"
  by (simp add: clean_followers_def strip_663 match_followers_def fraction_end_def
      magnitude_end_def at_end_def unicode_digit_663)

lemma not_ascii_shape_663: "\<not> followers_shape ascii_digit [0x663]"
proof -
  have "\<not> match_followers ascii_digit [0x663]"
    by (simp add: match_followers_def ascii_digit_def)
  then show ?thesis
    using shape_imp_match[of ascii_digit "[0x663]"] ascii_not_point ascii_not_magnitude by blast
qed

text \<open>
  C1, as the code has it: \<open>clean_followers\<close> returns the trimmed text when the trimmed
  text has the shape "digits or commas, optional fraction, optional magnitude letter",
  where a digit is any Unicode decimal digit (the class \<^verbatim>\<open>\d\<close> of the source), and the
  empty string for every other input. In particular a trimmed text of the ASCII pattern
  \<^verbatim>\<open>^[0-9,]+(\.[0-9]+)?[kKmM]?$\<close> is returned unchanged.
\<close>

theorem clean_followers_recognises:
  "clean_followers s = (if followers_shape py_isdecimal (py_strip s) then py_strip s else []) \<and>
   (followers_shape ascii_digit (py_strip s) \<longrightarrow> clean_followers s = py_strip s)"
proof -
  have eq: "match_followers py_isdecimal (py_strip s) = followers_shape py_isdecimal (py_strip s)"
    using match_is_shape[of py_isdecimal "py_strip s"] decimal_not_point decimal_not_magnitude
      strip_no_final_newline[of s] by blast
  have up: "followers_shape ascii_digit (py_strip s) \<Longrightarrow> followers_shape py_isdecimal (py_strip s)"
    by (rule shape_mono[of ascii_digit py_isdecimal]) (auto intro: decimal_ascii)
  from eq up show ?thesis by (auto simp: clean_followers_def Let_def)
qed

text \<open>
  The recogniser on \<open>" 12.3k "\<close>: the trimmed text \<open>"12.3k"\<close> has the shape and is returned.
\<close>

theorem clean_followers_recognises_witness:
  "followers_shape py_isdecimal (py_strip (str '' 12.3k '')) \<and>
   clean_followers (str '' 12.3k '') = str ''12.3k''"
proof -
  have st: "py_strip (str '' 12.3k '') = str ''12.3k''"
    by (simp add: py_strip_def py_isspace_def str_def)
  have "match_followers ascii_digit (str ''12.3k'')"
    by (simp add: match_followers_def fraction_end_def magnitude_end_def at_end_def
        ascii_digit_def is_magnitude_iff str_def)
  then have "followers_shape ascii_digit (py_strip (str '' 12.3k ''))"
    unfolding st by (rule match_imp_shape) (simp add: str_def)
  with clean_followers_recognises[of "str '' 12.3k ''"] st show ?thesis
    by (auto split: if_splits simp: str_def)
qed

text \<open>
  C1 as stated, with the ASCII class \<^verbatim>\<open>[0-9]\<close>, fails at the one-character text U+0663
  (ARABIC-INDIC DIGIT THREE): it does not match the ASCII pattern, and the recogniser
  returns it, not the empty string.
\<close>

theorem clean_followers_ascii_counterexample:
  "\<not> (clean_followers [0x663] =
      (if followers_shape ascii_digit (py_strip [0x663]) then py_strip [0x663] else []))"
  by (simp add: strip_663 clean_663 not_ascii_shape_663)

section \<open>Properties of the profile extractor\<close>

lemma take_length_iff: "take (length sub) s = sub \<longleftrightarrow> (\<exists>q. s = sub @ q)"
proof
  assume "take (length sub) s = sub"
  then have "s = sub @ drop (length sub) s" by (metis append_take_drop_id)
  then show "\<exists>q. s = sub @ q" ..
next
  assume "\<exists>q. s = sub @ q"
  then show "take (length sub) s = sub" by auto
qed

lemma py_in_iff: "py_in sub s \<longleftrightarrow> (\<exists>p q. s = p @ sub @ q)"
proof (induction s)
  case Nil
  show ?case by auto
next
  case (Cons c s)
  show ?case
  proof
    assume "py_in sub (c # s)"
    then consider "take (length sub) (c # s) = sub" | "py_in sub s" by auto
    then show "\<exists>p q. c # s = p @ sub @ q"
    proof cases
      case 1
      then obtain q where "c # s = sub @ q" using take_length_iff by blast
      then have "c # s = [] @ sub @ q" by simp
      then show ?thesis by blast
    next
      case 2
      with Cons.IH obtain p q where "s = p @ sub @ q" by blast
      then have "c # s = (c # p) @ sub @ q" by simp
      then show ?thesis by blast
    qed
  next
    assume "\<exists>p q. c # s = p @ sub @ q"
    then obtain p q where pq: "c # s = p @ sub @ q" by blast
    show "py_in sub (c # s)"
    proof (cases p)
      case Nil
      with pq have "take (length sub) (c # s) = sub" using take_length_iff[of sub "c # s"] by auto
      then show ?thesis by simp
    next
      case (Cons x p')
      with pq have "s = p' @ sub @ q" by simp
      with Cons.IH have "py_in sub s" by blast
      then show ?thesis by simp
    qed
  qed
qed

lemma instagram_href: "is_instagram L link \<Longrightarrow> href link \<noteq> []"
  by (auto simp: is_instagram_def py_lower_def str_def)

lemma tiktok_href: "is_tiktok L link \<Longrightarrow> href link \<noteq> []"
  by (auto simp: is_tiktok_def py_lower_def str_def)

lemma tiktok_step_ig:
  "ig_handle (tiktok_step L l st) = ig_handle st" "ig_followers (tiktok_step L l st) = ig_followers st"
  by (simp_all add: tiktok_step_def Let_def)

lemma instagram_step_tt:
  "tt_handle (instagram_step L l st) = tt_handle st" "tt_followers (instagram_step L l st) = tt_followers st"
  by (simp_all add: instagram_step_def Let_def)

lemma links_loop_append: "links_loop L st (a @ b) = links_loop L (links_loop L st a) b"
  by (induction a arbitrary: st) simp_all

lemma ig_kept:
  "ig_followers st \<noteq> [] \<Longrightarrow>
   ig_followers (links_loop L st links) = ig_followers st \<and> ig_handle (links_loop L st links) = ig_handle st"
proof (induction links arbitrary: st)
  case Nil
  show ?case by simp
next
  case (Cons l links)
  let ?st = "tiktok_step L l (instagram_step L l st)"
  have same: "ig_followers ?st = ig_followers st" "ig_handle ?st = ig_handle st"
    using Cons.prems by (simp_all add: tiktok_step_ig instagram_step_def)
  with Cons.prems have "ig_followers ?st \<noteq> []" by simp
  from Cons.IH[OF this] same show ?case by simp
qed

lemma tt_kept:
  "tt_followers st \<noteq> [] \<Longrightarrow>
   tt_followers (links_loop L st links) = tt_followers st \<and> tt_handle (links_loop L st links) = tt_handle st"
proof (induction links arbitrary: st)
  case Nil
  show ?case by simp
next
  case (Cons l links)
  let ?st = "tiktok_step L l (instagram_step L l st)"
  have same: "tt_followers ?st = tt_followers st" "tt_handle ?st = tt_handle st"
    using Cons.prems by (simp_all add: instagram_step_tt tiktok_step_def)
  with Cons.prems have "tt_followers ?st \<noteq> []" by simp
  from Cons.IH[OF this] same show ?case by simp
qed

lemma ig_loop:
  "ig_followers st = [] \<Longrightarrow>
   (case find (\<lambda>l. is_instagram L l \<and> find_followers l \<noteq> []) links of
      Some l \<Rightarrow> ig_handle (links_loop L st links) = href l \<and>
                ig_followers (links_loop L st links) = find_followers l
    | None \<Rightarrow> ig_followers (links_loop L st links) = [] \<and>
              ig_handle (links_loop L st links) =
                (if ig_handle st \<noteq> [] then ig_handle st
                 else case find (is_instagram L) links of Some l \<Rightarrow> href l | None \<Rightarrow> []))"
proof (induction links arbitrary: st)
  case Nil
  then show ?case by simp
next
  case (Cons l links)
  let ?st = "tiktok_step L l (instagram_step L l st)"
  consider (other) "\<not> is_instagram L l"
    | (found) "is_instagram L l" "find_followers l \<noteq> []"
    | (bare) "is_instagram L l" "find_followers l = []"
    by blast
  then show ?case
  proof cases
    case other
    then have "ig_followers ?st = []" "ig_handle ?st = ig_handle st"
      using Cons.prems by (simp_all add: tiktok_step_ig instagram_step_def)
    with Cons.IH[of ?st] other show ?thesis by (simp split: option.splits)
  next
    case found
    then have st: "ig_followers ?st = find_followers l" "ig_handle ?st = href l"
      using Cons.prems by (simp_all add: tiktok_step_ig instagram_step_def Let_def)
    with found have "ig_followers ?st \<noteq> []" by simp
    from ig_kept[OF this, of L links] st found show ?thesis by (simp split: option.splits)
  next
    case bare
    then have st: "ig_followers ?st = []"
      "ig_handle ?st = (if ig_handle st = [] then href l else ig_handle st)"
      using Cons.prems by (simp_all add: tiktok_step_ig instagram_step_def Let_def)
    have "ig_handle ?st \<noteq> []" using st(2) instagram_href[OF bare(1)] by simp
    with Cons.IH[OF st(1)] st(2) bare show ?thesis by (simp split: option.splits)
  qed
qed

lemma tt_loop:
  "tt_followers st = [] \<Longrightarrow>
   (case find (\<lambda>l. is_tiktok L l \<and> find_followers l \<noteq> []) links of
      Some l \<Rightarrow> tt_handle (links_loop L st links) = href l \<and>
                tt_followers (links_loop L st links) = find_followers l
    | None \<Rightarrow> tt_followers (links_loop L st links) = [] \<and>
              tt_handle (links_loop L st links) =
                (if tt_handle st \<noteq> [] then tt_handle st
                 else case find (is_tiktok L) links of Some l \<Rightarrow> href l | None \<Rightarrow> []))"
proof (induction links arbitrary: st)
  case Nil
  then show ?case by simp
next
  case (Cons l links)
  let ?st = "tiktok_step L l (instagram_step L l st)"
  consider (other) "\<not> is_tiktok L l"
    | (found) "is_tiktok L l" "find_followers l \<noteq> []"
    | (bare) "is_tiktok L l" "find_followers l = []"
    by blast
  then show ?case
  proof cases
    case other
    then have "tt_followers ?st = []" "tt_handle ?st = tt_handle st"
      using Cons.prems by (simp_all add: instagram_step_tt tiktok_step_def)
    with Cons.IH[of ?st] other show ?thesis by (simp split: option.splits)
  next
    case found
    then have st: "tt_followers ?st = find_followers l" "tt_handle ?st = href l"
      using Cons.prems by (simp_all add: instagram_step_tt tiktok_step_def Let_def)
    with found have "tt_followers ?st \<noteq> []" by simp
    from tt_kept[OF this, of L links] st found show ?thesis by (simp split: option.splits)
  next
    case bare
    then have st: "tt_followers ?st = []"
      "tt_handle ?st = (if tt_handle st = [] then href l else tt_handle st)"
      using Cons.prems by (simp_all add: instagram_step_tt tiktok_step_def Let_def)
    have "tt_handle ?st \<noteq> []" using st(2) tiktok_href[OF bare(1)] by simp
    with Cons.IH[OF st(1)] st(2) bare show ?thesis by (simp split: option.splits)
  qed
qed

lemma walk_past:
  "list_all (\<lambda>n. clean_followers (sibling_text n) = [] \<and> length (sibling_text n) \<le> 20) pre \<Longrightarrow>
   walk_siblings (pre @ rest) = walk_siblings rest"
  by (induction pre) (simp_all add: Let_def)

lemma concat_last:
  "(\<And>x. x \<in> set xs \<Longrightarrow> x \<noteq> [] \<and> Q (last x)) \<Longrightarrow> concat xs = [] \<or> Q (last (concat xs))"
proof (induction xs)
  case Nil
  show ?case by simp
next
  case (Cons x xs)
  have x: "x \<noteq> []" "Q (last x)" using Cons.prems[of x] by simp_all
  have ih: "concat xs = [] \<or> Q (last (concat xs))"
    by (rule Cons.IH) (rule Cons.prems, simp)
  show ?case
  proof (cases "concat xs = []")
    case True
    have "concat (x # xs) = x" by (simp only: concat.simps True append_Nil2)
    with x show ?thesis by (simp only:) simp
  next
    case False
    have "last (concat (x # xs)) = last (concat xs)"
      by (simp only: concat.simps last_appendR[OF False])
    with ih False show ?thesis by (simp only:) simp
  qed
qed

lemma get_text_strip_last:
  "get_text_strip ps = [] \<or> \<not> py_isspace (last (get_text_strip ps))"
  unfolding get_text_strip_def
proof (rule concat_last)
  fix x assume "x \<in> set (filter (\<lambda>t. t \<noteq> []) (map py_strip ps))"
  then obtain p where "x = py_strip p" "x \<noteq> []" by auto
  then show "x \<noteq> [] \<and> \<not> py_isspace (last x)" using strip_last[of p] by simp
qed

lemma get_text_strip_no_newline: "get_text_strip ps = [] \<or> last (get_text_strip ps) \<noteq> 10"
  using get_text_strip_last[of ps] by (auto simp: py_isspace_def)

lemma match_token_imp_shape:
  assumes m: "match_token D s" and nl: "s = [] \<or> last s \<noteq> 10"
  shows "token_shape D s"
proof -
  let ?P = "\<lambda>c. D c \<or> c = 0x2C \<or> c = 0x2E"
  let ?a = "takeWhile ?P s" and ?r = "dropWhile ?P s"
  have s: "s = ?a @ ?r" by simp
  have a: "?a \<noteq> []" "list_all ?P ?a"
    using m by (auto simp: match_token_def list_all_iff dest: set_takeWhileD)
  from m have "magnitude_end ?r" by (simp add: match_token_def)
  with nl s have c: "?r = [] \<or> (\<exists>m. ?r = [m] \<and> is_magnitude m)"
    using magnitude_end_shape by blast
  from s a c show ?thesis unfolding token_shape_def by blast
qed

lemma shape_imp_match_token:
  assumes sh: "token_shape D s" and D: "\<And>m. is_magnitude m \<Longrightarrow> \<not> D m"
  shows "match_token D s"
proof -
  let ?P = "\<lambda>c. D c \<or> c = 0x2C \<or> c = 0x2E"
  from sh obtain a c where s: "s = a @ c" and a: "a \<noteq> []" "list_all ?P a"
    and c: "c = [] \<or> (\<exists>m. c = [m] \<and> is_magnitude m)"
    unfolding token_shape_def by blast
  have mag: "\<not> ?P m" if "is_magnitude m" for m
    using that D[OF that] by (auto simp: is_magnitude_iff)
  have cP: "c = [] \<or> \<not> ?P (hd c)"
  proof (cases "c = []")
    case False
    with c obtain m where "c = [m]" "is_magnitude m" by blast
    then show ?thesis using mag by simp
  qed simp
  have split: "takeWhile ?P (a @ c) = a \<and> dropWhile ?P (a @ c) = c"
    by (rule run_then_rest[OF a(2) cP])
  with a c show ?thesis unfolding match_token_def s by (simp add: shape_magnitude_end)
qed

lemma token_match_is_shape:
  "match_token py_isdecimal (get_text_strip p) = token_shape py_isdecimal (get_text_strip p)"
  using match_token_imp_shape[OF _ get_text_strip_no_newline] shape_imp_match_token
    decimal_not_magnitude by blast

lemma div_loop_filter:
  "div_loop U acc ps = acc @ filter (survives U) (map get_text_strip ps)"
proof (induction ps arbitrary: acc)
  case Nil
  show ?case by simp
next
  case (Cons p ps)
  show ?case
    by (simp add: Cons.IH Let_def survives_def token_match_is_shape)
qed

lemma divs_loop_filter:
  "divs_loop U acc ds = acc @ filter (survives U) (map get_text_strip (concat ds))"
  by (induction ds arbitrary: acc) (simp_all add: div_loop_filter)

lemma py_upper_append: "py_upper U (a @ b) = py_upper U a @ py_upper U b"
  by (simp add: py_upper_def)

lemma py_in_upper:
  assumes "py_in w s"
  shows "py_in (py_upper U w) (py_upper U s)"
proof -
  from assms obtain p q where "s = p @ w @ q" unfolding py_in_iff by blast
  then have "py_upper U s = py_upper U p @ py_upper U w @ py_upper U q"
    by (simp add: py_upper_append)
  then show ?thesis unfolding py_in_iff by blast
qed

lemma any_case_upper:
  "any_case target w \<Longrightarrow> list_all (\<lambda>t. 0x41 \<le> t \<and> t \<le> 0x5A) target \<Longrightarrow> py_upper U w = target"
  unfolding any_case_def
proof (induction rule: list_all2_induct)
  case Nil
  show ?case by (simp add: py_upper_def)
next
  case (Cons t ts c cs)
  then have "upper_cp U c = [t]" by (auto simp: upper_cp_def)
  with Cons show ?case by (simp add: py_upper_def)
qed

lemma followers_any_case:
  assumes "any_case (str ''FOLLOWERS'') w" and "py_in w text"
  shows "\<not> survives U text"
proof -
  have "py_upper U w = str ''FOLLOWERS''"
    by (rule any_case_upper[OF assms(1)]) (simp add: str_def)
  with py_in_upper[OF assms(2), of U] show ?thesis by (simp add: survives_def)
qed

subsection \<open>Evaluation on the example inputs\<close>

lemma decimal_low: "c < 0x660 \<Longrightarrow> py_isdecimal c = ascii_digit c"
  by (auto simp: py_isdecimal_def decimal_ranges_def ascii_digit_def)

lemmas eval_clean = clean_followers_def py_strip_def py_isspace_def match_followers_def
  fraction_end_def magnitude_end_def at_end_def decimal_low ascii_digit_def is_magnitude_iff
  str_def get_text_strip_def Let_def

lemma clean_long_count: "clean_followers (str ''1,000,000,000,000,000,000'') = str ''1,000,000,000,000,000,000''"
  by (simp add: eval_clean)

lemma long_count_text: "sibling_text (Tag [str '' 1,000,000,000,000,000,000 '']) = str ''1,000,000,000,000,000,000''"
  by (simp add: get_text_strip_def py_strip_def py_isspace_def str_def)

lemma example_links_match: "list_all (is_instagram (\<lambda>s. s)) example_links"
  "list_all (\<lambda>l. \<not> is_tiktok (\<lambda>s. s) l) example_links"
  by (simp_all add: example_links_def counted_anchor_def is_instagram_def is_tiktok_def
      py_lower_def lower_ascii_def str_def)

lemma example_links_found: "map find_followers example_links = [[], str ''12.3k'', str ''5k'']"
  by (simp add: example_links_def counted_anchor_def find_followers_def eval_clean)

lemma example_bio: "bio_text (\<lambda>c. [c]) example_divs = str ''Hello World''"
  by (simp add: bio_text_def example_divs_def py_upper_def upper_cp_def match_token_def eval_clean)

subsection \<open>The claims about the profile extractor\<close>

text \<open>
  C2: for each platform, when some matching anchor has a follower count beside it, the
  handle is the raw href of the first such anchor and the count is the one found there;
  when no matching anchor has one, the follower field is empty and the handle is the raw
  href of the first matching anchor (empty when there is none); and once a count is
  attached, the anchors that follow change neither the handle nor the count.
\<close>

theorem social_links_first_count_wins:
  "(case find (\<lambda>l. is_instagram L l \<and> find_followers l \<noteq> []) links of
      Some l \<Rightarrow> ig_handle (social_links L links) = href l \<and>
                ig_followers (social_links L links) = find_followers l
    | None \<Rightarrow> ig_followers (social_links L links) = [] \<and>
              ig_handle (social_links L links) =
                (case find (is_instagram L) links of Some l \<Rightarrow> href l | None \<Rightarrow> [])) \<and>
   (case find (\<lambda>l. is_tiktok L l \<and> find_followers l \<noteq> []) links of
      Some l \<Rightarrow> tt_handle (social_links L links) = href l \<and>
                tt_followers (social_links L links) = find_followers l
    | None \<Rightarrow> tt_followers (social_links L links) = [] \<and>
              tt_handle (social_links L links) =
                (case find (is_tiktok L) links of Some l \<Rightarrow> href l | None \<Rightarrow> [])) \<and>
   (ig_followers (social_links L pre) \<noteq> [] \<longrightarrow>
      ig_handle (social_links L (pre @ post)) = ig_handle (social_links L pre) \<and>
      ig_followers (social_links L (pre @ post)) = ig_followers (social_links L pre)) \<and>
   (tt_followers (social_links L pre) \<noteq> [] \<longrightarrow>
      tt_handle (social_links L (pre @ post)) = tt_handle (social_links L pre) \<and>
      tt_followers (social_links L (pre @ post)) = tt_followers (social_links L pre))"
proof -
  let ?init = "\<lparr>ig_handle = [], ig_followers = [], tt_handle = [], tt_followers = []\<rparr>"
  have ig: "ig_followers ?init = []" and tt: "tt_followers ?init = []" by simp_all
  have 1: "case find (\<lambda>l. is_instagram L l \<and> find_followers l \<noteq> []) links of
      Some l \<Rightarrow> ig_handle (social_links L links) = href l \<and>
                ig_followers (social_links L links) = find_followers l
    | None \<Rightarrow> ig_followers (social_links L links) = [] \<and>
              ig_handle (social_links L links) =
                (case find (is_instagram L) links of Some l \<Rightarrow> href l | None \<Rightarrow> [])"
    using ig_loop[OF ig, of L links] by (simp add: social_links_def split: option.splits)
  have 2: "case find (\<lambda>l. is_tiktok L l \<and> find_followers l \<noteq> []) links of
      Some l \<Rightarrow> tt_handle (social_links L links) = href l \<and>
                tt_followers (social_links L links) = find_followers l
    | None \<Rightarrow> tt_followers (social_links L links) = [] \<and>
              tt_handle (social_links L links) =
                (case find (is_tiktok L) links of Some l \<Rightarrow> href l | None \<Rightarrow> [])"
    using tt_loop[OF tt, of L links] by (simp add: social_links_def split: option.splits)
  have 3: "ig_followers (social_links L pre) \<noteq> [] \<longrightarrow>
      ig_handle (social_links L (pre @ post)) = ig_handle (social_links L pre) \<and>
      ig_followers (social_links L (pre @ post)) = ig_followers (social_links L pre)"
    using ig_kept[of "links_loop L ?init pre" L post]
    by (simp add: social_links_def links_loop_append)
  have 4: "tt_followers (social_links L pre) \<noteq> [] \<longrightarrow>
      tt_handle (social_links L (pre @ post)) = tt_handle (social_links L pre) \<and>
      tt_followers (social_links L (pre @ post)) = tt_followers (social_links L pre)"
    using tt_kept[of "links_loop L ?init pre" L post]
    by (simp add: social_links_def links_loop_append)
  from 1 2 3 4 show ?thesis by (intro conjI)
qed

text \<open>
  The example page: the first Instagram anchor has no count, the second has \<open>12.3k\<close>,
  the third \<open>5k\<close>. The second one wins and the third changes nothing.
\<close>

theorem social_links_first_count_wins_witness:
  "ig_followers (social_links (\<lambda>s. s) (take 2 example_links)) \<noteq> [] \<and>
   ig_handle (social_links (\<lambda>s. s) (take 2 example_links @ drop 2 example_links)) = str ''//instagram.com/b'' \<and>
   ig_followers (social_links (\<lambda>s. s) (take 2 example_links @ drop 2 example_links)) = str ''12.3k'' \<and>
   tt_handle (social_links (\<lambda>s. s) example_links) = [] \<and>
   tt_followers (social_links (\<lambda>s. s) example_links) = []"
proof -
  have 1: "find (\<lambda>l. is_instagram (\<lambda>s. s) l \<and> find_followers l \<noteq> []) example_links = Some counted_anchor"
    using example_links_match(1) example_links_found by (simp add: example_links_def str_def)
  have 2: "find (\<lambda>l. is_tiktok (\<lambda>s. s) l \<and> find_followers l \<noteq> []) example_links = None"
    "find (is_tiktok (\<lambda>s. s)) example_links = None"
    using example_links_match(2) by (simp_all add: example_links_def)
  have 3: "find (\<lambda>l. is_instagram (\<lambda>s. s) l \<and> find_followers l \<noteq> []) (take 2 example_links) = Some counted_anchor"
    using example_links_match(1) example_links_found by (simp add: example_links_def str_def)
  have 4: "href counted_anchor = str ''//instagram.com/b''" "find_followers counted_anchor = str ''12.3k''"
    using example_links_found by (simp_all add: example_links_def counted_anchor_def)
  have 5: "str ''12.3k'' \<noteq> []" by (simp add: str_def)
  have a: "ig_followers (social_links (\<lambda>s. s) (take 2 example_links)) = str ''12.3k''"
    using social_links_first_count_wins[of "\<lambda>s. s" "take 2 example_links" "[]" "[]"]
    unfolding 3 by (simp add: 4)
  have b: "ig_handle (social_links (\<lambda>s. s) example_links) = str ''//instagram.com/b''"
    "ig_followers (social_links (\<lambda>s. s) example_links) = str ''12.3k''"
    "tt_handle (social_links (\<lambda>s. s) example_links) = []"
    "tt_followers (social_links (\<lambda>s. s) example_links) = []"
    using social_links_first_count_wins[of "\<lambda>s. s" example_links "[]" "[]"]
    unfolding 1 2 by (simp_all add: 4)
  from a b 5 show ?thesis by simp
qed

text \<open>
  C3: the bio is the first five surviving paragraph texts joined by single spaces, the
  paragraphs taken container by container in document order; a paragraph survives when
  its text is not empty, does not contain one of the four words in its uppercase form and
  is not of the token shape. A paragraph whose text contains "followers" in any letter
  case never survives.
\<close>

theorem bio_first_five_survivors:
  "bio_text U divs =
     py_join (str '' '') (take 5 (filter (survives U) (map get_text_strip (concat divs)))) \<and>
   (\<forall>p w. p \<in> set (concat divs) \<and> any_case (str ''FOLLOWERS'') w \<and> py_in w (get_text_strip p)
      \<longrightarrow> get_text_strip p \<notin> set (divs_loop U [] divs))"
  by (auto simp: bio_text_def divs_loop_filter dest: followers_any_case)

text \<open>
  On the example containers the token \<open>12.3k\<close> and the paragraph with "followers" are
  dropped, and the bio is \<open>Hello World\<close>.
\<close>

theorem bio_first_five_survivors_witness:
  "py_join (str '' '') (take 5 (filter (survives (\<lambda>c. [c])) (map get_text_strip (concat example_divs)))) =
     str ''Hello World'' \<and>
   [str ''10k '', str ''followers''] \<in> set (concat example_divs) \<and>
   any_case (str ''FOLLOWERS'') (str ''followers'') \<and>
   py_in (str ''followers'') (get_text_strip [str ''10k '', str ''followers'']) \<and>
   get_text_strip [str ''10k '', str ''followers''] \<notin> set (divs_loop (\<lambda>c. [c]) [] example_divs)"
proof -
  have 1: "[str ''10k '', str ''followers''] \<in> set (concat example_divs)"
    by (simp add: example_divs_def)
  have 2: "any_case (str ''FOLLOWERS'') (str ''followers'')"
    by (simp add: any_case_def str_def)
  have 3: "py_in (str ''followers'') (get_text_strip [str ''10k '', str ''followers''])"
    by (simp add: get_text_strip_def py_strip_def py_isspace_def str_def)
  from bio_first_five_survivors[of "\<lambda>c. [c]" example_divs] example_bio 1 2 3 show ?thesis
    by (simp only:) blast
qed

lemma scrape_profiles_member:
  "(url, image_url) \<in> set profiles \<Longrightarrow> scrape_profile U L url image_url (get url) = Some r \<Longrightarrow>
   r \<in> set (scrape_profiles U L get profiles)"
proof (induction profiles)
  case Nil
  then show ?case by simp
next
  case (Cons c profiles)
  obtain u i where c: "c = (u, i)" by (cases c)
  show ?case
  proof (cases "c = (url, image_url)")
    case True
    with Cons.prems(2) c show ?thesis by simp
  next
    case False
    with Cons.prems have "(url, image_url) \<in> set profiles" by simp
    from Cons.IH[OF this Cons.prems(2)] c show ?thesis by (simp split: option.splits)
  qed
qed

text \<open>
  C9, as the code has it: a page fetched with status 200 whose body the parser accepts and
  that has no level-1 heading gives a record whose name is the placeholder \<open>Unknown\<close>,
  and the record is among the rows of the run. A body on which the parser raises gives no
  record, and the run goes on with the other candidates.
\<close>

theorem missing_heading_placeholder:
  "(h1 soup = None \<longrightarrow>
     (\<exists>r. scrape_profile U L url image_url (Response 200 (Parsed soup)) = Some r \<and>
          Name r = str ''Unknown'' \<and> Page_URL r = url \<and> Image_URL r = image_url) \<and>
     ((url, image_url) \<in> set profiles \<and> get url = Response 200 (Parsed soup) \<longrightarrow>
        (\<exists>r \<in> set (scrape_profiles U L get profiles). Name r = str ''Unknown'' \<and> Page_URL r = url))) \<and>
   scrape_profile U L url image_url (Response 200 (Rejected markup)) = None \<and>
   (get url = Response 200 (Rejected markup) \<longrightarrow>
      scrape_profiles U L get ((url, image_url) # rest) = scrape_profiles U L get rest)"
proof (intro impI conjI)
  assume h: "h1 soup = None"
  let ?r = "the (scrape_profile U L url image_url (Response 200 (Parsed soup)))"
  have r: "scrape_profile U L url image_url (Response 200 (Parsed soup)) = Some ?r"
    "Name ?r = str ''Unknown''" "Page_URL ?r = url" "Image_URL ?r = image_url"
    using h by (simp_all add: scrape_profile_def Let_def)
  then show "\<exists>r. scrape_profile U L url image_url (Response 200 (Parsed soup)) = Some r \<and>
          Name r = str ''Unknown'' \<and> Page_URL r = url \<and> Image_URL r = image_url"
    by blast
  assume "(url, image_url) \<in> set profiles \<and> get url = Response 200 (Parsed soup)"
  then have "?r \<in> set (scrape_profiles U L get profiles)"
    using scrape_profiles_member[of url image_url profiles U L get ?r] r(1) by simp
  with r show "\<exists>r \<in> set (scrape_profiles U L get profiles). Name r = str ''Unknown'' \<and> Page_URL r = url"
    by blast
next
  show "scrape_profile U L url image_url (Response 200 (Rejected markup)) = None"
    by (simp add: scrape_profile_def)
next
  assume "get url = Response 200 (Rejected markup)"
  then show "scrape_profiles U L get ((url, image_url) # rest) = scrape_profiles U L get rest"
    by (simp add: scrape_profile_def)
qed

text \<open>
  The example page has no heading; the run over it and over a body that the parser
  rejects gives one row, named \<open>Unknown\<close>.
\<close>

theorem missing_heading_placeholder_witness:
  "h1 example_page = None \<and>
   map Name (scrape_profiles (\<lambda>c. [c]) (\<lambda>s. s)
      (\<lambda>u. if u = str ''bad'' then Response 200 (Rejected rejected_markup)
            else Response 200 (Parsed example_page))
      [(str ''bad'', str ''i''), (str ''u'', str ''i'')]) =
     [str ''Unknown'']"
proof -
  let ?get = "\<lambda>u. if u = str ''bad'' then Response 200 (Rejected rejected_markup)
            else Response 200 (Parsed example_page)"
  have h: "h1 example_page = None" by (simp add: example_page_def)
  have g: "?get (str ''bad'') = Response 200 (Rejected rejected_markup)"
    "?get (str ''u'') = Response 200 (Parsed example_page)"
    by (simp_all add: str_def)
  from missing_heading_placeholder[of example_page "\<lambda>c. [c]" "\<lambda>s. s" "str ''u''" "str ''i''"
      "[(str ''u'', str ''i'')]" ?get rejected_markup "[]"] h
  obtain r where r: "scrape_profile (\<lambda>c. [c]) (\<lambda>s. s) (str ''u'') (str ''i'') (Response 200 (Parsed example_page)) = Some r"
    "Name r = str ''Unknown''" by blast
  from missing_heading_placeholder[of example_page "\<lambda>c. [c]" "\<lambda>s. s" "str ''bad''" "str ''i''"
      "[]" ?get rejected_markup "[(str ''u'', str ''i'')]"] g(1)
  have "scrape_profiles (\<lambda>c. [c]) (\<lambda>s. s) ?get [(str ''bad'', str ''i''), (str ''u'', str ''i'')] =
        scrape_profiles (\<lambda>c. [c]) (\<lambda>s. s) ?get [(str ''u'', str ''i'')]"
    by blast
  with r g(2) h show ?thesis by simp
qed

text \<open>
  C9 as stated, for every page whose fetch succeeds, fails at a response with status 200
  whose body is \<^verbatim>\<open><p>a</p><![a b]>\<close>: the markup has no \<^verbatim>\<open>h1\<close>, the parser raises on it
  inside the \<^verbatim>\<open>try\<close> block, and the page gives no record.
\<close>

theorem missing_heading_rejected_counterexample:
  "no_heading (Rejected rejected_markup) \<and>
   scrape_profile (\<lambda>c. [c]) (\<lambda>s. s) (str ''u'') (str ''i'')
     (Response 200 (Rejected rejected_markup)) = None \<and>
   scrape_profiles (\<lambda>c. [c]) (\<lambda>s. s) (\<lambda>u. Response 200 (Rejected rejected_markup))
     [(str ''u'', str ''i'')] = []"
  by (simp add: no_heading_def scrape_profile_def rejected_markup_def str_def)

text \<open>
  C10: in the walk over the parent's following siblings the recogniser is asked before
  the length of the text is looked at. After siblings that neither match nor exceed 20
  characters, a sibling whose text matches is the result, whatever its length; a text
  that does not match stops the walk when it is longer than 20 characters, and is
  passed over otherwise.
\<close>

theorem walk_recogniser_before_cutoff:
  assumes "list_all (\<lambda>n. clean_followers (sibling_text n) = [] \<and> length (sibling_text n) \<le> 20) pre"
  shows "(clean_followers (sibling_text n) \<noteq> [] \<longrightarrow>
            walk_siblings (pre @ n # rest) = clean_followers (sibling_text n)) \<and>
         (clean_followers (sibling_text n) = [] \<and> length (sibling_text n) > 20 \<longrightarrow>
            walk_siblings (pre @ n # rest) = []) \<and>
         (clean_followers (sibling_text n) = [] \<and> length (sibling_text n) \<le> 20 \<longrightarrow>
            walk_siblings (pre @ n # rest) = walk_siblings rest)"
  using walk_past[OF assms, of "n # rest"] by (simp add: Let_def)

text \<open>
  A sibling with the 25 characters \<open>1,000,000,000,000,000,000\<close> is accepted.
\<close>

theorem walk_recogniser_before_cutoff_witness:
  "list_all (\<lambda>n. clean_followers (sibling_text n) = [] \<and> length (sibling_text n) \<le> 20)
     [Tag [str ''Followers'']] \<and>
   20 < length (sibling_text (Tag [str '' 1,000,000,000,000,000,000 ''])) \<and>
   walk_siblings ([Tag [str ''Followers'']] @ Tag [str '' 1,000,000,000,000,000,000 ''] # [Tag [str ''5k'']]) =
     str ''1,000,000,000,000,000,000''"
proof -
  have t: "sibling_text (Tag [str ''Followers'']) = str ''Followers''"
    by (simp add: get_text_strip_def py_strip_def py_isspace_def str_def)
  have pre: "list_all (\<lambda>n. clean_followers (sibling_text n) = [] \<and> length (sibling_text n) \<le> 20)
     [Tag [str ''Followers'']]"
    by (simp add: eval_clean)
  have len: "20 < length (sibling_text (Tag [str '' 1,000,000,000,000,000,000 '']))"
    unfolding long_count_text by (simp add: str_def)
  have "clean_followers (sibling_text (Tag [str '' 1,000,000,000,000,000,000 ''])) = str ''1,000,000,000,000,000,000''"
    unfolding long_count_text by (rule clean_long_count)
  moreover have "str ''1,000,000,000,000,000,000'' \<noteq> []" by (simp add: str_def)
  ultimately show ?thesis
    using walk_recogniser_before_cutoff[OF pre, of "Tag [str '' 1,000,000,000,000,000,000 '']" "[Tag [str ''5k'']]"] pre len
    by simp
qed

section \<open>Properties of the record transformer and of the listing collector\<close>

lemma esc_concat: "esc s = concat (map (\<lambda>c. if c = 0x27 then [0x27, 0x27] else [c]) s)"
  unfolding esc_def by (induction s) simp_all

lemma esc_append: "esc (a @ b) = esc a @ esc b"
  by (simp add: esc_concat)

lemma esc_plain: "0x27 \<notin> set w \<Longrightarrow> esc w = w"
  by (induction w) (simp_all add: esc_concat)

lemma esc_Cons: "esc (c # u) = (if c = 0x27 then 0x27 # 0x27 # esc u else c # esc u)"
  by (simp add: esc_concat)

lemma esc_Nil: "esc [] = []"
  by (simp add: esc_concat)

lemma esc_prefix_back:
  "0x27 \<notin> set w \<Longrightarrow> take (length w) (esc u) = w \<Longrightarrow> take (length w) u = w"
proof (induction u arbitrary: w)
  case Nil
  then show ?case by (simp add: esc_Nil)
next
  case (Cons c u)
  show ?case
  proof (cases w)
    case Nil
    then show ?thesis by simp
  next
    case (Cons x w')
    with Cons.prems have x: "x \<noteq> 0x27" "0x27 \<notin> set w'" by auto
    from Cons.prems(2) Cons x have "c \<noteq> 0x27" by (auto simp: esc_Cons split: if_splits)
    with Cons.prems(2) Cons have "x = c" "take (length w') (esc u) = w'"
      by (simp_all add: esc_Cons)
    with Cons.IH[OF x(2)] Cons show ?thesis by simp
  qed
qed

lemma esc_prefix_forth:
  assumes "0x27 \<notin> set w" "take (length w) u = w"
  shows "take (length w) (esc u) = w"
proof -
  from assms(2) obtain q where "u = w @ q" using take_length_iff by blast
  then have "esc u = w @ esc q" by (simp add: esc_append esc_plain[OF assms(1)])
  then show ?thesis by simp
qed

lemma esc_prefix: "0x27 \<notin> set w \<Longrightarrow> take (length w) (esc u) = w \<longleftrightarrow> take (length w) u = w"
  using esc_prefix_back esc_prefix_forth by blast

lemma py_in_Nil: "py_in [] s"
  by (cases s) simp_all

lemma py_in_esc: "0x27 \<notin> set w \<Longrightarrow> py_in w (esc u) = py_in w u"
proof (induction u)
  case Nil
  show ?case by (simp add: esc_Nil)
next
  case (Cons c u)
  show ?case
  proof (cases "w = []")
    case True
    then show ?thesis by (simp add: py_in_Nil)
  next
    case False
    have pre: "take (length w) (esc (c # u)) = w \<longleftrightarrow> take (length w) (c # u) = w"
      by (rule esc_prefix[OF Cons.prems])
    show ?thesis
    proof (cases "c = 0x27")
      case True
      from False obtain x w' where w: "w = x # w'" by (cases w) auto
      with Cons.prems have "x \<noteq> 0x27" by auto
      with w True Cons.IH[OF Cons.prems] show ?thesis by (simp add: esc_Cons)
    next
      case c: False
      then have "py_in w (esc (c # u)) \<longleftrightarrow> take (length w) (esc (c # u)) = w \<or> py_in w (esc u)"
        by (simp add: esc_Cons)
      with pre Cons.IH[OF Cons.prems] show ?thesis by simp
    qed
  qed
qed

lemma category_of_esc: "category_of (esc url) = category_of url"
proof -
  have "py_in (str ''sports'') (esc url) = py_in (str ''sports'') url"
    "py_in (str ''beauty'') (esc url) = py_in (str ''beauty'') url"
    "py_in (str ''fashion'') (esc url) = py_in (str ''fashion'') url"
    "py_in (str ''food'') (esc url) = py_in (str ''food'') url"
    "py_in (str ''lifestyle'') (esc url) = py_in (str ''lifestyle'') url"
    by (rule py_in_esc, simp add: str_def)+
  then show ?thesis by (simp add: category_of_def)
qed

lemma val_str_same: "val_str_lines row = val_str row"
  by (simp add: val_str_lines_def val_str_def Let_def)

lemma val_str_fields:
  assumes "row (str ''Name'') = Some (Some name)" "row (str ''Page URL'') = Some (Some page_url)"
    "row (str ''Image URL'') = Some (Some image_url)" "row (str ''Bio'') = Some (Some bio)"
    "row (str ''Instagram'') = Some (Some instagram)"
    "row (str ''Instagram Followers'') = Some (Some instagram_followers)"
    "row (str ''TikTok'') = Some (Some tiktok)"
    "row (str ''TikTok Followers'') = Some (Some tiktok_followers)"
  shows "val_str row = Inr (value_tuple [user_id, esc name, category_of (esc page_url), str ''active'',
     esc image_url, esc instagram, esc instagram_followers, esc tiktok, esc tiktok_followers,
     esc page_url, esc bio])"
  using assms by (simp add: val_str_def escaped_def and_then_def Let_def)

lemma values_loop_ok:
  "map val_str rows = map Inr vs \<Longrightarrow> values_loop acc rows = Inr (acc @ vs)"
proof (induction rows arbitrary: acc vs)
  case Nil
  then show ?case by simp
next
  case (Cons r rows)
  then obtain v vs' where vs: "vs = v # vs'" "val_str r = Inr v" "map val_str rows = map Inr vs'"
    by (cases vs) auto
  from Cons.IH[OF vs(3), of "acc @ [v]"] vs show ?case by (simp add: and_then_def)
qed

lemma lines_loop_ok:
  "map val_str_lines rows = map Inr vs \<Longrightarrow> lines_loop rows = (map insert_line vs, None)"
proof (induction rows arbitrary: vs)
  case Nil
  then show ?case by simp
next
  case (Cons r rows)
  then obtain v vs' where vs: "vs = v # vs'" "val_str_lines r = Inr v" "map val_str_lines rows = map Inr vs'"
    by (cases vs) auto
  from Cons.IH[OF vs(3)] vs show ?case by simp
qed

lemma py_in_append_left: "py_in w a \<Longrightarrow> py_in w (a @ b)"
  unfolding py_in_iff by (metis append.assoc)

lemma py_in_append_right: "py_in w b \<Longrightarrow> py_in w (a @ b)"
  unfolding py_in_iff by (metis append.assoc)

lemma quoted_in_join:
  "v \<in> set vs \<Longrightarrow>
   py_in ([0x27] @ v @ [0x27]) ([0x27] @ py_join [0x27, 0x2C, 0x20, 0x27] vs @ [0x27])"
proof (induction "[0x27, 0x2C, 0x20, 0x27 :: nat]" vs rule: py_join.induct)
  case 1
  then show ?case by simp
next
  case (2 x)
  then have "v = x" by simp
  then show ?case unfolding py_in_iff by (metis append_Nil append_Nil2 py_join.simps(2))
next
  case (3 x y xs)
  let ?sep = "[0x27, 0x2C, 0x20, 0x27 :: nat]"
  show ?case
  proof (cases "v = x")
    case True
    have "[0x27] @ py_join ?sep (x # y # xs) @ [0x27] =
          ([0x27] @ v @ [0x27]) @ ([0x2C, 0x20, 0x27] @ py_join ?sep (y # xs) @ [0x27])"
      using True by simp
    then show ?thesis unfolding py_in_iff by (metis append_Nil)
  next
    case False
    with 3(2) have "v \<in> set (y # xs)" by simp
    from 3(1)[OF this]
    have "py_in ([0x27] @ v @ [0x27]) (([0x27] @ x @ [0x27, 0x2C, 0x20]) @ ([0x27] @ py_join ?sep (y # xs) @ [0x27]))"
      by (rule py_in_append_right)
    then show ?thesis by simp
  qed
qed

lemma quoted_in_tuple: "v \<in> set vs \<Longrightarrow> py_in ([0x27] @ v @ [0x27]) (value_tuple vs)"
proof -
  assume "v \<in> set vs"
  from quoted_in_join[OF this]
  have "py_in ([0x27] @ v @ [0x27]) ([0x28] @ ([0x27] @ py_join [0x27, 0x2C, 0x20, 0x27] vs @ [0x27]) @ [0x29])"
    by (rule py_in_append_right[OF py_in_append_left])
  then show ?thesis by (simp add: value_tuple_def)
qed

lemma dict_set_subset: "set (dict_set k v d) \<subseteq> insert (k, v) (set d)"
  by (induction d) (auto split: if_splits)

lemma listing_loop_from:
  "(u, s) \<in> set (listing_loop urljoin d links) \<Longrightarrow>
   (u, s) \<in> set d \<or> (\<exists>link \<in> set links. candidate urljoin link = Some (u, s))"
proof (induction links arbitrary: d)
  case Nil
  then show ?case by simp
next
  case (Cons link links)
  show ?case
  proof (cases "candidate urljoin link")
    case None
    with Cons.prems have "(u, s) \<in> set (listing_loop urljoin d links)" by simp
    from Cons.IH[OF this] show ?thesis by auto
  next
    case (Some c)
    obtain k v where c: "c = (k, v)" by (cases c)
    with Some Cons.prems have "(u, s) \<in> set (listing_loop urljoin (dict_set k v d) links)" by simp
    from Cons.IH[OF this] consider "(u, s) \<in> set (dict_set k v d)"
      | "\<exists>link \<in> set links. candidate urljoin link = Some (u, s)" by blast
    then show ?thesis
    proof cases
      case 1
      with dict_set_subset[of k v d] have "(u, s) = (k, v) \<or> (u, s) \<in> set d" by blast
      with Some c show ?thesis by auto
    next
      case 2
      then show ?thesis by auto
    qed
  qed
qed

lemma jane_plain:
  "esc (str ''Jane Doe'') = str ''Jane Doe''"
  "esc (str ''https://example.com/talent/jane-doe-sports-fan'') = str ''https://example.com/talent/jane-doe-sports-fan''"
  "esc (str ''https://instagram.com/janedoe'') = str ''https://instagram.com/janedoe''"
  "esc (str ''12.3k'') = str ''12.3k''"
  by (rule esc_plain, simp add: str_def)+

lemma jane_category: "category_of (str ''https://example.com/talent/jane-doe-sports-fan'') = str ''Sports''"
  by (simp add: category_of_def str_def)

lemma example_row_fields:
  "example_row (str ''Name'') = Some (Some (str ''Jane Doe''))"
  "example_row (str ''Page URL'') = Some (Some (str ''https://example.com/talent/jane-doe-sports-fan''))"
  "example_row (str ''Instagram'') = Some (Some (str ''https://instagram.com/janedoe''))"
  "example_row (str ''Instagram Followers'') = Some (Some (str ''12.3k''))"
  "example_row (str ''Image URL'') = Some (Some (str ''https://example.com/j.png''))"
  "example_row (str ''Bio'') = Some (Some (str ''Runs.''))"
  "example_row (str ''TikTok'') = Some (Some [])"
  "example_row (str ''TikTok Followers'') = Some (Some [])"
  by (simp_all add: example_row_def str_def)

lemma example_plain:
  "esc (str ''https://example.com/j.png'') = str ''https://example.com/j.png''"
  "esc (str ''Runs.'') = str ''Runs.''"
  "esc (str ''/talent/ob-beauty-sports'') = str ''/talent/ob-beauty-sports''"
  by (rule esc_plain, simp add: str_def)+

lemma example_row_value: "val_str example_row = Inr example_tuple"
  using val_str_fields[OF example_row_fields(1,2,5,6,3,4,7,8)]
  by (simp add: example_tuple_def jane_plain jane_category example_plain esc_Nil)

lemma example_row_quote_fields:
  "example_row_quote (str ''Name'') = Some (Some (str ''O'Brien''))"
  "example_row_quote (str ''Page URL'') = Some (Some (str ''/talent/ob-beauty-sports''))"
  "example_row_quote (str ''Image URL'') = Some (Some [])"
  "example_row_quote (str ''Bio'') = Some (Some [])"
  "example_row_quote (str ''Instagram'') = Some (Some [])"
  "example_row_quote (str ''Instagram Followers'') = Some (Some [])"
  "example_row_quote (str ''TikTok'') = Some (Some [])"
  "example_row_quote (str ''TikTok Followers'') = Some (Some [])"
  by (simp_all add: example_row_quote_def str_def)

lemma example_quote_category: "category_of (str ''/talent/ob-beauty-sports'') = str ''Sports''"
  by (simp add: category_of_def str_def)

lemma tile_paths:
  "py_replace base_url [] (base_url @ str ''/influencers-nz'') = str ''/influencers-nz''"
  "py_replace base_url [] (base_url @ str ''/talent/b'') = str ''/talent/b''"
  by (simp_all add: base_url_def str_def)

subsection \<open>The claims about the record transformer\<close>

text \<open>
  C4: the category is \<open>Influencer\<close> unless one of the five words occurs in the URL, and
  then it is the category of the first of \<open>sports\<close>, \<open>beauty\<close>, \<open>fashion\<close>, \<open>food\<close>,
  \<open>lifestyle\<close> that occurs, letter case respected. A URL with both \<open>sports\<close> and \<open>beauty\<close>
  gives \<open>Sports\<close>, not \<open>Beauty\<close>; the result is always one of the six categories; and
  the scripts, which look at the URL after its quotes are doubled, find what the raw URL
  gives.
\<close>

theorem category_first_match_wins:
  "category_of url =
     (if (\<exists>p q. url = p @ str ''sports'' @ q) then str ''Sports''
      else if (\<exists>p q. url = p @ str ''beauty'' @ q) then str ''Beauty''
      else if (\<exists>p q. url = p @ str ''fashion'' @ q) then str ''Fashion''
      else if (\<exists>p q. url = p @ str ''food'' @ q) then str ''Food''
      else if (\<exists>p q. url = p @ str ''lifestyle'' @ q) then str ''Lifestyle''
      else str ''Influencer'') \<and>
   ((\<exists>p q. url = p @ str ''sports'' @ q) \<and> (\<exists>p q. url = p @ str ''beauty'' @ q) \<longrightarrow>
      category_of url = str ''Sports'' \<and> category_of url \<noteq> str ''Beauty'') \<and>
   category_of url \<in> set [str ''Influencer'', str ''Sports'', str ''Beauty'', str ''Fashion'',
      str ''Food'', str ''Lifestyle''] \<and>
   category_of (esc url) = category_of url"
proof -
  have 1: "category_of url =
     (if (\<exists>p q. url = p @ str ''sports'' @ q) then str ''Sports''
      else if (\<exists>p q. url = p @ str ''beauty'' @ q) then str ''Beauty''
      else if (\<exists>p q. url = p @ str ''fashion'' @ q) then str ''Fashion''
      else if (\<exists>p q. url = p @ str ''food'' @ q) then str ''Food''
      else if (\<exists>p q. url = p @ str ''lifestyle'' @ q) then str ''Lifestyle''
      else str ''Influencer'')"
    unfolding category_of_def py_in_iff ..
  have ne: "str ''Sports'' \<noteq> str ''Beauty''" by (simp add: str_def)
  have 2: "(\<exists>p q. url = p @ str ''sports'' @ q) \<and> (\<exists>p q. url = p @ str ''beauty'' @ q) \<longrightarrow>
      category_of url = str ''Sports'' \<and> category_of url \<noteq> str ''Beauty''"
    unfolding category_of_def py_in_iff using ne by simp
  have 3: "category_of url \<in> set [str ''Influencer'', str ''Sports'', str ''Beauty'', str ''Fashion'',
      str ''Food'', str ''Lifestyle'']"
    by (simp add: category_of_def)
  from 1 2 3 category_of_esc show ?thesis by (intro conjI)
qed

text \<open>
  A URL in which \<open>beauty\<close> comes before \<open>sports\<close> still gives \<open>Sports\<close>.
\<close>

theorem category_first_match_wins_witness:
  "(\<exists>p q. str ''/talent/ob-beauty-sports'' = p @ str ''sports'' @ q) \<and>
   (\<exists>p q. str ''/talent/ob-beauty-sports'' = p @ str ''beauty'' @ q) \<and>
   category_of (str ''/talent/ob-beauty-sports'') = str ''Sports''"
proof -
  have 1: "\<exists>p q. str ''/talent/ob-beauty-sports'' = p @ str ''sports'' @ q"
    unfolding py_in_iff[symmetric] by (simp add: str_def)
  have 2: "\<exists>p q. str ''/talent/ob-beauty-sports'' = p @ str ''beauty'' @ q"
    unfolding py_in_iff[symmetric] by (simp add: str_def)
  from category_first_match_wins[of "str ''/talent/ob-beauty-sports''"] 1 2 show ?thesis by blast
qed

text \<open>
  C5: the two scripts compute the same value tuple for every row (or raise the same
  exception), both print the deletion first, and for rows that can all be read the one
  script prints a single insertion whose values are the tuples of the rows in order,
  joined by a comma and a line feed, and the other one insertion per tuple, in the same
  order.
\<close>

theorem rendering_modes_same_tuples:
  "val_str_lines row = val_str row \<and>
   (\<exists>rest. fst (generate_sql rows) = delete_statement # rest) \<and>
   (\<exists>rest. fst (generate_sql_lines rows) = delete_statement # rest) \<and>
   (map val_str rows = map Inr vs \<longrightarrow>
      generate_sql rows = ([delete_statement, insert_line (py_join [0x2C, 0x0A] vs)], None) \<and>
      generate_sql_lines rows = (delete_statement # map insert_line vs, None))"
proof -
  have 1: "\<exists>rest. fst (generate_sql rows) = delete_statement # rest"
    by (simp add: generate_sql_def Let_def split: sum.splits)
  have 2: "\<exists>rest. fst (generate_sql_lines rows) = delete_statement # rest"
    by (simp add: generate_sql_lines_def split: prod.splits)
  have 3: "map val_str rows = map Inr vs \<longrightarrow>
      generate_sql rows = ([delete_statement, insert_line (py_join [0x2C, 0x0A] vs)], None) \<and>
      generate_sql_lines rows = (delete_statement # map insert_line vs, None)"
  proof
    assume a: "map val_str rows = map Inr vs"
    have "val_str_lines = val_str" by (rule ext) (rule val_str_same)
    with a have b: "map val_str_lines rows = map Inr vs" by simp
    have "values_loop [] rows = Inr vs" using values_loop_ok[OF a, of "[]"] by simp
    then have "generate_sql rows = ([delete_statement, insert_line (py_join [0x2C, 0x0A] vs)], None)"
      by (simp add: generate_sql_def insert_line_def Let_def)
    moreover have "generate_sql_lines rows = (delete_statement # map insert_line vs, None)"
      by (simp add: generate_sql_lines_def lines_loop_ok[OF b])
    ultimately show "generate_sql rows = ([delete_statement, insert_line (py_join [0x2C, 0x0A] vs)], None) \<and>
      generate_sql_lines rows = (delete_statement # map insert_line vs, None)" by simp
  qed
  from val_str_same 1 2 3 show ?thesis by (intro conjI)
qed

text \<open>
  Both scripts on the same two rows.
\<close>

theorem rendering_modes_same_tuples_witness:
  "map val_str [example_row, example_row] = map Inr [example_tuple, example_tuple] \<and>
   generate_sql [example_row, example_row] =
     ([delete_statement, insert_line (py_join [0x2C, 0x0A] [example_tuple, example_tuple])], None) \<and>
   generate_sql_lines [example_row, example_row] =
     ([delete_statement, insert_line example_tuple, insert_line example_tuple], None)"
proof -
  have h: "map val_str [example_row, example_row] = map Inr [example_tuple, example_tuple]"
    by (simp add: example_row_value)
  with rendering_modes_same_tuples[of example_row "[example_row, example_row]"
      "[example_tuple, example_tuple]"]
  show ?thesis by simp
qed

lemma value_tuple_render:
  "value_tuple [v1, v2, v3, v4, v5, v6, v7, v8, v9, v10, v11] =
     [0x28, 0x27] @ v1 @ [0x27, 0x2C, 0x20, 0x27] @ v2 @ [0x27, 0x2C, 0x20, 0x27] @ v3 @
     [0x27, 0x2C, 0x20, 0x27] @ v4 @ [0x27, 0x2C, 0x20, 0x27] @ v5 @ [0x27, 0x2C, 0x20, 0x27] @
     v6 @ [0x27, 0x2C, 0x20, 0x27] @ v7 @ [0x27, 0x2C, 0x20, 0x27] @ v8 @
     [0x27, 0x2C, 0x20, 0x27] @ v9 @ [0x27, 0x2C, 0x20, 0x27] @ v10 @ [0x27, 0x2C, 0x20, 0x27] @
     v11 @ [0x27, 0x29]"
  by (simp add: value_tuple_def)

text \<open>
  C6: escaping replaces each single quote by two and leaves every other code point as
  it is, so \<open>O'Brien\<close> becomes \<open>O''Brien\<close>. In both scripts the text rendered for a row is
  \<^verbatim>\<open>('\<close>, the eleven values separated by \<^verbatim>\<open>', '\<close>, and \<^verbatim>\<open>')\<close>, where each of the eight fields
  read from the row is escaped once; so every escaped field stands in the rendered text
  between two single quotes.
\<close>

theorem quotes_doubled_once:
  "esc s = concat (map (\<lambda>c. if c = 0x27 then [0x27, 0x27] else [c]) s) \<and>
   esc (str ''O'Brien'') = str ''O'' @ [0x27, 0x27] @ str ''Brien'' \<and>
   (row (str ''Name'') = Some (Some name) \<and> row (str ''Page URL'') = Some (Some page_url) \<and>
    row (str ''Image URL'') = Some (Some image_url) \<and> row (str ''Bio'') = Some (Some bio) \<and>
    row (str ''Instagram'') = Some (Some instagram) \<and>
    row (str ''Instagram Followers'') = Some (Some instagram_followers) \<and>
    row (str ''TikTok'') = Some (Some tiktok) \<and>
    row (str ''TikTok Followers'') = Some (Some tiktok_followers) \<longrightarrow>
      val_str row = Inr (value_tuple [user_id, esc name, category_of (esc page_url), str ''active'',
        esc image_url, esc instagram, esc instagram_followers, esc tiktok, esc tiktok_followers,
        esc page_url, esc bio]) \<and>
      val_str_lines row = val_str row \<and>
      val_str row = Inr (
        [0x28, 0x27] @ user_id @ [0x27, 0x2C, 0x20, 0x27] @ esc name @
        [0x27, 0x2C, 0x20, 0x27] @ category_of (esc page_url) @
        [0x27, 0x2C, 0x20, 0x27] @ str ''active'' @
        [0x27, 0x2C, 0x20, 0x27] @ esc image_url @
        [0x27, 0x2C, 0x20, 0x27] @ esc instagram @
        [0x27, 0x2C, 0x20, 0x27] @ esc instagram_followers @
        [0x27, 0x2C, 0x20, 0x27] @ esc tiktok @
        [0x27, 0x2C, 0x20, 0x27] @ esc tiktok_followers @
        [0x27, 0x2C, 0x20, 0x27] @ esc page_url @
        [0x27, 0x2C, 0x20, 0x27] @ esc bio @ [0x27, 0x29]) \<and>
      (\<exists>t. val_str row = Inr t \<and> val_str_lines row = Inr t \<and>
         py_in ([0x27] @ esc name @ [0x27]) t \<and>
         py_in ([0x27] @ esc page_url @ [0x27]) t \<and>
         py_in ([0x27] @ esc image_url @ [0x27]) t \<and>
         py_in ([0x27] @ esc bio @ [0x27]) t \<and>
         py_in ([0x27] @ esc instagram @ [0x27]) t \<and>
         py_in ([0x27] @ esc instagram_followers @ [0x27]) t \<and>
         py_in ([0x27] @ esc tiktok @ [0x27]) t \<and>
         py_in ([0x27] @ esc tiktok_followers @ [0x27]) t))"
proof (intro conjI impI)
  show "esc s = concat (map (\<lambda>c. if c = 0x27 then [0x27, 0x27] else [c]) s)"
    by (rule esc_concat)
  show "esc (str ''O'Brien'') = str ''O'' @ [0x27, 0x27] @ str ''Brien''"
    by (simp add: esc_concat str_def)
next
  let ?vs = "[user_id, esc name, category_of (esc page_url), str ''active'',
        esc image_url, esc instagram, esc instagram_followers, esc tiktok, esc tiktok_followers,
        esc page_url, esc bio]"
  assume "row (str ''Name'') = Some (Some name) \<and> row (str ''Page URL'') = Some (Some page_url) \<and>
    row (str ''Image URL'') = Some (Some image_url) \<and> row (str ''Bio'') = Some (Some bio) \<and>
    row (str ''Instagram'') = Some (Some instagram) \<and>
    row (str ''Instagram Followers'') = Some (Some instagram_followers) \<and>
    row (str ''TikTok'') = Some (Some tiktok) \<and>
    row (str ''TikTok Followers'') = Some (Some tiktok_followers)"
  then have v: "val_str row = Inr (value_tuple ?vs)"
    using val_str_fields[of row name page_url image_url bio instagram instagram_followers
        tiktok tiktok_followers] by blast
  show "val_str row = Inr (value_tuple ?vs)" by (rule v)
  show "val_str_lines row = val_str row" by (rule val_str_same)
  show "val_str row = Inr (
        [0x28, 0x27] @ user_id @ [0x27, 0x2C, 0x20, 0x27] @ esc name @
        [0x27, 0x2C, 0x20, 0x27] @ category_of (esc page_url) @
        [0x27, 0x2C, 0x20, 0x27] @ str ''active'' @
        [0x27, 0x2C, 0x20, 0x27] @ esc image_url @
        [0x27, 0x2C, 0x20, 0x27] @ esc instagram @
        [0x27, 0x2C, 0x20, 0x27] @ esc instagram_followers @
        [0x27, 0x2C, 0x20, 0x27] @ esc tiktok @
        [0x27, 0x2C, 0x20, 0x27] @ esc tiktok_followers @
        [0x27, 0x2C, 0x20, 0x27] @ esc page_url @
        [0x27, 0x2C, 0x20, 0x27] @ esc bio @ [0x27, 0x29])"
    unfolding v value_tuple_render ..
  have "py_in ([0x27] @ esc name @ [0x27]) (value_tuple ?vs)"
    "py_in ([0x27] @ esc page_url @ [0x27]) (value_tuple ?vs)"
    "py_in ([0x27] @ esc image_url @ [0x27]) (value_tuple ?vs)"
    "py_in ([0x27] @ esc bio @ [0x27]) (value_tuple ?vs)"
    "py_in ([0x27] @ esc instagram @ [0x27]) (value_tuple ?vs)"
    "py_in ([0x27] @ esc instagram_followers @ [0x27]) (value_tuple ?vs)"
    "py_in ([0x27] @ esc tiktok @ [0x27]) (value_tuple ?vs)"
    "py_in ([0x27] @ esc tiktok_followers @ [0x27]) (value_tuple ?vs)"
    by (rule quoted_in_tuple, simp)+
  with v val_str_same[of row]
  show "\<exists>t. val_str row = Inr t \<and> val_str_lines row = Inr t \<and>
         py_in ([0x27] @ esc name @ [0x27]) t \<and>
         py_in ([0x27] @ esc page_url @ [0x27]) t \<and>
         py_in ([0x27] @ esc image_url @ [0x27]) t \<and>
         py_in ([0x27] @ esc bio @ [0x27]) t \<and>
         py_in ([0x27] @ esc instagram @ [0x27]) t \<and>
         py_in ([0x27] @ esc instagram_followers @ [0x27]) t \<and>
         py_in ([0x27] @ esc tiktok @ [0x27]) t \<and>
         py_in ([0x27] @ esc tiktok_followers @ [0x27]) t"
    by simp
qed

text \<open>
  A row whose name is \<open>O'Brien\<close>: the rendered text is
  \<^verbatim>\<open>('eff94470-6759-4490-9c94-8277546e8ea9', 'O''Brien', 'Sports', 'active', '', '', '', '', '', '/talent/ob-beauty-sports', '')\<close>,
  in which the name stands between quotes with its quote doubled once.
\<close>

theorem quotes_doubled_once_witness:
  "example_row_quote (str ''Name'') = Some (Some (str ''O'Brien'')) \<and>
   val_str example_row_quote =
     Inr (value_tuple [user_id, str ''O'' @ [0x27, 0x27] @ str ''Brien'', str ''Sports'',
       str ''active'', [], [], [], [], [], str ''/talent/ob-beauty-sports'', []]) \<and>
   val_str_lines example_row_quote = val_str example_row_quote \<and>
   val_str example_row_quote =
     Inr (str ''('eff94470-6759-4490-9c94-8277546e8ea9', 'O'' @ [0x27, 0x27] @
          str ''Brien', 'Sports', 'active', '' @ [0x27, 0x27] @ str '', '' @ [0x27, 0x27] @
          str '', '' @ [0x27, 0x27] @ str '', '' @ [0x27, 0x27] @ str '', '' @ [0x27, 0x27] @
          str '', '/talent/ob-beauty-sports', '' @ [0x27, 0x27] @ str '')'') \<and>
   (\<exists>t. val_str example_row_quote = Inr t \<and>
      py_in ([0x27] @ str ''O'' @ [0x27, 0x27] @ str ''Brien'' @ [0x27]) t)"
proof -
  note inst = quotes_doubled_once[of "str ''O'Brien''" example_row_quote "str ''O'Brien''"
      "str ''/talent/ob-beauty-sports''" "[]" "[]" "[]" "[]" "[]" "[]", THEN conjunct2]
  from inst have e: "esc (str ''O'Brien'') = str ''O'' @ [0x27, 0x27] @ str ''Brien''" by blast
  from inst example_row_quote_fields
  have t0: "val_str example_row_quote =
     Inr (value_tuple [user_id, esc (str ''O'Brien''), category_of (esc (str ''/talent/ob-beauty-sports'')),
       str ''active'', esc [], esc [], esc [], esc [], esc [], esc (str ''/talent/ob-beauty-sports''), esc []])"
    and t2: "val_str_lines example_row_quote = val_str example_row_quote"
    and t3: "\<exists>t. val_str example_row_quote = Inr t \<and>
      py_in ([0x27] @ esc (str ''O'Brien'') @ [0x27]) t"
    by blast+
  have t1: "val_str example_row_quote =
     Inr (value_tuple [user_id, str ''O'' @ [0x27, 0x27] @ str ''Brien'', str ''Sports'',
       str ''active'', [], [], [], [], [], str ''/talent/ob-beauty-sports'', []])"
    using t0 by (simp add: e example_plain example_quote_category esc_Nil)
  have t4: "val_str example_row_quote =
     Inr (str ''('eff94470-6759-4490-9c94-8277546e8ea9', 'O'' @ [0x27, 0x27] @
          str ''Brien', 'Sports', 'active', '' @ [0x27, 0x27] @ str '', '' @ [0x27, 0x27] @
          str '', '' @ [0x27, 0x27] @ str '', '' @ [0x27, 0x27] @ str '', '' @ [0x27, 0x27] @
          str '', '/talent/ob-beauty-sports', '' @ [0x27, 0x27] @ str '')'')"
    unfolding t1 value_tuple_render by (simp add: user_id_def str_def)
  from t3 have t5: "\<exists>t. val_str example_row_quote = Inr t \<and>
      py_in ([0x27] @ str ''O'' @ [0x27, 0x27] @ str ''Brien'' @ [0x27]) t"
    unfolding e by simp
  from example_row_quote_fields(1) t1 t2 t4 t5 show ?thesis by (intro conjI)
qed

text \<open>
  C8: the row of the scenario, whatever its four other fields hold, gives a tuple with
  the name \<open>Jane Doe\<close>, the category \<open>Sports\<close>, the Instagram link and \<open>12.3k\<close> as they are;
  each of the four stands in the tuple between single quotes.
\<close>

theorem jane_doe_row:
  "row (str ''Name'') = Some (Some (str ''Jane Doe'')) \<and>
   row (str ''Page URL'') = Some (Some (str ''https://example.com/talent/jane-doe-sports-fan'')) \<and>
   row (str ''Instagram'') = Some (Some (str ''https://instagram.com/janedoe'')) \<and>
   row (str ''Instagram Followers'') = Some (Some (str ''12.3k'')) \<and>
   row (str ''Image URL'') = Some (Some image_url) \<and> row (str ''Bio'') = Some (Some bio) \<and>
   row (str ''TikTok'') = Some (Some tiktok) \<and>
   row (str ''TikTok Followers'') = Some (Some tiktok_followers) \<longrightarrow>
     val_str row = Inr (value_tuple [user_id, str ''Jane Doe'', str ''Sports'', str ''active'',
       esc image_url, str ''https://instagram.com/janedoe'', str ''12.3k'', esc tiktok,
       esc tiktok_followers, str ''https://example.com/talent/jane-doe-sports-fan'', esc bio]) \<and>
     val_str_lines row = val_str row \<and>
     (\<exists>t. val_str row = Inr t \<and>
        py_in ([0x27] @ str ''Jane Doe'' @ [0x27]) t \<and>
        py_in ([0x27] @ str ''Sports'' @ [0x27]) t \<and>
        py_in ([0x27] @ str ''https://instagram.com/janedoe'' @ [0x27]) t \<and>
        py_in ([0x27] @ str ''12.3k'' @ [0x27]) t)"
proof (intro impI, elim conjE)
  let ?vs = "[user_id, str ''Jane Doe'', str ''Sports'', str ''active'',
       esc image_url, str ''https://instagram.com/janedoe'', str ''12.3k'', esc tiktok,
       esc tiktok_followers, str ''https://example.com/talent/jane-doe-sports-fan'', esc bio]"
  assume "row (str ''Name'') = Some (Some (str ''Jane Doe''))"
    "row (str ''Page URL'') = Some (Some (str ''https://example.com/talent/jane-doe-sports-fan''))"
    "row (str ''Instagram'') = Some (Some (str ''https://instagram.com/janedoe''))"
    "row (str ''Instagram Followers'') = Some (Some (str ''12.3k''))"
    "row (str ''Image URL'') = Some (Some image_url)" "row (str ''Bio'') = Some (Some bio)"
    "row (str ''TikTok'') = Some (Some tiktok)"
    "row (str ''TikTok Followers'') = Some (Some tiktok_followers)"
  then have v: "val_str row = Inr (value_tuple ?vs)"
    using val_str_fields[of row] by (simp add: jane_plain jane_category)
  have "py_in ([0x27] @ str ''Jane Doe'' @ [0x27]) (value_tuple ?vs)"
    "py_in ([0x27] @ str ''Sports'' @ [0x27]) (value_tuple ?vs)"
    "py_in ([0x27] @ str ''https://instagram.com/janedoe'' @ [0x27]) (value_tuple ?vs)"
    "py_in ([0x27] @ str ''12.3k'' @ [0x27]) (value_tuple ?vs)"
    by (rule quoted_in_tuple, simp)+
  with v val_str_same[of row]
  show "val_str row = Inr (value_tuple ?vs) \<and> val_str_lines row = val_str row \<and>
     (\<exists>t. val_str row = Inr t \<and>
        py_in ([0x27] @ str ''Jane Doe'' @ [0x27]) t \<and>
        py_in ([0x27] @ str ''Sports'' @ [0x27]) t \<and>
        py_in ([0x27] @ str ''https://instagram.com/janedoe'' @ [0x27]) t \<and>
        py_in ([0x27] @ str ''12.3k'' @ [0x27]) t)"
    by blast
qed

text \<open>
  The scenario with an image, a bio and no TikTok data.
\<close>

theorem jane_doe_row_witness:
  "example_row (str ''Name'') = Some (Some (str ''Jane Doe'')) \<and>
   example_row (str ''Page URL'') = Some (Some (str ''https://example.com/talent/jane-doe-sports-fan'')) \<and>
   example_row (str ''Instagram'') = Some (Some (str ''https://instagram.com/janedoe'')) \<and>
   example_row (str ''Instagram Followers'') = Some (Some (str ''12.3k'')) \<and>
   val_str example_row = Inr example_tuple \<and>
   py_in ([0x27] @ str ''Sports'' @ [0x27]) example_tuple"
proof -
  from jane_doe_row[of example_row "str ''https://example.com/j.png''" "str ''Runs.''" "[]" "[]"]
    example_row_fields
  obtain t where t: "val_str example_row = Inr t" "py_in ([0x27] @ str ''Sports'' @ [0x27]) t"
    by blast
  with example_row_value have "t = example_tuple" by simp
  with t example_row_fields show ?thesis by simp
qed

subsection \<open>The claim about the listing collector\<close>

text \<open>
  C7: an anchor whose URL, with the origin removed, is \<open>/influencers-nz\<close> contributes
  nothing, and neither does an anchor without an image inside. An anchor that
  contributes has an image; the value stored is the image's \<^verbatim>\<open>data-src\<close> when that is
  there and not empty, otherwise its \<^verbatim>\<open>src\<close>, with \<open>https:\<close> put before a leading \<open>//\<close>.
  Every entry of the collected mapping comes from such an anchor.
\<close>

theorem listing_needs_image:
  "(py_replace base_url [] (urljoin base_url (a_href link)) = str ''/influencers-nz'' \<longrightarrow>
      candidate urljoin link = None) \<and>
   (a_img link = None \<longrightarrow> candidate urljoin link = None) \<and>
   (candidate urljoin link = Some (u, s) \<longrightarrow>
      (\<exists>img v. a_img link = Some img \<and> py_or (data_src img) (src img) = Some v \<and> v \<noteq> [] \<and>
         u = urljoin base_url (a_href link) \<and>
         s = (if startswith v (str ''//'') then str ''https:'' @ v else v))) \<and>
   (d \<noteq> [] \<longrightarrow> py_or (Some d) other = Some d) \<and>
   py_or None other = other \<and> py_or (Some []) other = other \<and>
   ((u, s) \<in> set (listing_loop urljoin [] links) \<longrightarrow>
      (\<exists>link \<in> set links. candidate urljoin link = Some (u, s)))"
proof -
  have 1: "py_replace base_url [] (urljoin base_url (a_href link)) = str ''/influencers-nz'' \<longrightarrow>
      candidate urljoin link = None"
    by (simp add: candidate_def Let_def excluded_paths_def)
  have 2: "a_img link = None \<longrightarrow> candidate urljoin link = None"
    by (simp add: candidate_def Let_def)
  have 3: "candidate urljoin link = Some (u, s) \<longrightarrow>
      (\<exists>img v. a_img link = Some img \<and> py_or (data_src img) (src img) = Some v \<and> v \<noteq> [] \<and>
         u = urljoin base_url (a_href link) \<and>
         s = (if startswith v (str ''//'') then str ''https:'' @ v else v))"
    by (auto simp: candidate_def Let_def split: if_splits option.splits)
  have 4: "d \<noteq> [] \<longrightarrow> py_or (Some d) other = Some d" "py_or None other = other"
    "py_or (Some []) other = other"
    by (simp_all add: py_or_def)
  have 5: "(u, s) \<in> set (listing_loop urljoin [] links) \<longrightarrow>
      (\<exists>link \<in> set links. candidate urljoin link = Some (u, s))"
    using listing_loop_from[of u s urljoin "[]" links] by simp
  from 1 2 3 4 5 show ?thesis by (intro conjI)
qed

text \<open>
  Three anchors: the listing page itself with an image, a profile without an image, and
  a profile with both attributes. Only the last is collected, with its \<^verbatim>\<open>data-src\<close>.
\<close>

theorem listing_needs_image_witness:
  "py_replace base_url [] (base_url @ a_href tile_listing) = str ''/influencers-nz'' \<and>
   candidate (\<lambda>b h. b @ h) tile_listing = None \<and>
   a_img tile_no_image = None \<and>
   candidate (\<lambda>b h. b @ h) tile_no_image = None \<and>
   listing_loop (\<lambda>b h. b @ h) [] example_tiles =
     [(base_url @ str ''/talent/b'', str ''https://cdn/b.png'')]"
proof -
  have p: "py_replace base_url [] (base_url @ a_href tile_listing) = str ''/influencers-nz''"
    by (simp add: tile_listing_def tile_paths)
  have i: "a_img tile_no_image = None" by (simp add: tile_no_image_def)
  have 1: "candidate (\<lambda>b h. b @ h) tile_listing = None"
    using listing_needs_image[of "\<lambda>b h. b @ h" tile_listing] p by simp
  have 2: "candidate (\<lambda>b h. b @ h) tile_no_image = None"
    using listing_needs_image[of "\<lambda>b h. b @ h" tile_no_image] i by simp
  have 3: "candidate (\<lambda>b h. b @ h) tile_profile =
     Some (base_url @ str ''/talent/b'', str ''https://cdn/b.png'')"
    by (simp add: candidate_def tile_profile_def tile_paths startswith_def py_or_def Let_def)
       (simp add: excluded_paths_def str_def)
  from p i 1 2 3 show ?thesis by (simp add: example_tiles_def)
qed

end
